(* ===== verification/Prelude.thy ===== *)
theory Prelude
  imports Main "HOL-Library.Word" "HOL-Library.Sublist"
begin

text \<open>
  What every component shares: the machine integer types, programs with state and C++
  exceptions (return, sequencing, try/catch, destructors) with their weakest-precondition
  rules, and the pieces of the C++ standard library's strings the module uses.
\<close>

unbundle bit_operations_syntax

section \<open>Machine integers\<close>

type_synonym u8 = "8 word"
type_synonym u32 = "32 word"
type_synonym u64 = "64 word"
type_synonym u128 = "128 word"

section \<open>Rule collections\<close>

named_theorems wp "weakest preconditions of the program constructors"
named_theorems runs "evaluation of a program on a state"

section \<open>Programs with state and exceptions\<close>

text \<open>
  A C++ throw is a value: an exception derived from \<^verbatim>\<open>std::exception\<close> carries its
  \<^verbatim>\<open>what()\<close>, any other one is anonymous, and \<open>Terminated\<close> is the process dying in
  \<^verbatim>\<open>std::terminate\<close> (a destructor that throws), which no handler catches.
\<close>

datatype exn = StdException string | UnknownException | Terminated

type_synonym ('s, 'a) prog = "'s \<Rightarrow> (exn + 'a) \<times> 's"

definition retM :: "'a \<Rightarrow> ('s, 'a) prog" where
  "retM x = (\<lambda>s. (Inr x, s))"

definition throwM :: "exn \<Rightarrow> ('s, 'a) prog" where
  "throwM e = (\<lambda>s. (Inl e, s))"

definition bindM :: "('s, 'a) prog \<Rightarrow> ('a \<Rightarrow> ('s, 'b) prog) \<Rightarrow> ('s, 'b) prog" where
  "bindM m k = (\<lambda>s. case m s of (Inl e, t) \<Rightarrow> (Inl e, t) | (Inr x, t) \<Rightarrow> k x t)"

definition thenM :: "('s, 'a) prog \<Rightarrow> ('s, 'b) prog \<Rightarrow> ('s, 'b) prog" where
  "thenM m k = bindM m (\<lambda>_. k)"

definition getM :: "('s \<Rightarrow> 'a) \<Rightarrow> ('s, 'a) prog" where
  "getM f = (\<lambda>s. (Inr (f s), s))"

definition modM :: "('s \<Rightarrow> 's) \<Rightarrow> ('s, unit) prog" where
  "modM f = (\<lambda>s. (Inr (), f s))"

definition liftM :: "exn + 'a \<Rightarrow> ('s, 'a) prog" where
  "liftM r = (\<lambda>s. (r, s))"

definition whenM :: "bool \<Rightarrow> ('s, unit) prog \<Rightarrow> ('s, unit) prog" where
  "whenM b m = (if b then m else retM ())"

primrec forM :: "'a list \<Rightarrow> ('a \<Rightarrow> ('s, unit) prog) \<Rightarrow> ('s, unit) prog" where
  "forM [] f = retM ()"
| "forM (x # xs) f = thenM (f x) (forM xs f)"

text \<open>\<^verbatim>\<open>try { m } catch (const std::exception& e) { h1 } catch (...) { h2 }\<close>.\<close>

definition catchM :: "('s, 'a) prog \<Rightarrow> (string \<Rightarrow> ('s, 'a) prog) \<Rightarrow> ('s, 'a) prog \<Rightarrow> ('s, 'a) prog" where
  "catchM m h1 h2 = (\<lambda>s. case m s of
     (Inl (StdException w), t) \<Rightarrow> h1 w t
   | (Inl UnknownException, t) \<Rightarrow> h2 t
   | r \<Rightarrow> r)"

text \<open>
  A scope with a destructor: it runs on every way out of the scope. Destructors are
  \<^verbatim>\<open>noexcept\<close>, so one that throws terminates the process.
\<close>

definition finallyM :: "('s, 'a) prog \<Rightarrow> ('s, unit) prog \<Rightarrow> ('s, 'a) prog" where
  "finallyM m d = (\<lambda>s. case m s of (r, t) \<Rightarrow>
     (if r = Inl Terminated then (r, t)
      else case d t of (Inl _, u) \<Rightarrow> (Inl Terminated, u) | (Inr _, u) \<Rightarrow> (r, u)))"

subsection \<open>Evaluation\<close>

lemma run_apply [runs]:
  "retM x s = (Inr x, s)" "getM f s = (Inr (f s), s)" "modM g s = (Inr (), g s)" "liftM r s = (r, s)"
  "bindM m k s = (case m s of (r, t) \<Rightarrow> case r of Inl e \<Rightarrow> (Inl e, t) | Inr x \<Rightarrow> k x t)"
  "thenM m k' s = (case m s of (r, t) \<Rightarrow> case r of Inl e \<Rightarrow> (Inl e, t) | Inr x \<Rightarrow> k' t)"
  "finallyM m d s = (case m s of (r, t) \<Rightarrow> if r = Inl Terminated then (r, t)
      else case d t of (r', u) \<Rightarrow> case r' of Inl _ \<Rightarrow> (Inl Terminated, u) | Inr _ \<Rightarrow> (r, u))"
  "whenM b n s = (if b then n s else (Inr (), s))"
  by (simp_all add: retM_def getM_def modM_def liftM_def bindM_def thenM_def finallyM_def whenM_def split: prod.splits sum.splits)

subsection \<open>Weakest preconditions\<close>

text \<open>\<open>wp m Q s\<close>: running \<open>m\<close> from \<open>s\<close> ends with an outcome and a state in \<open>Q\<close>.\<close>

definition wp :: "('s, 'a) prog \<Rightarrow> (exn + 'a \<Rightarrow> 's \<Rightarrow> bool) \<Rightarrow> 's \<Rightarrow> bool" where
  "wp m Q s = (case m s of (r, t) \<Rightarrow> Q r t)"

lemma wp_ret [wp]: "wp (retM x) Q s = Q (Inr x) s"
  by (simp add: wp_def retM_def)

lemma wp_throw [wp]: "wp (throwM e) Q s = Q (Inl e) s"
  by (simp add: wp_def throwM_def)

lemma wp_get [wp]: "wp (getM f) Q s = Q (Inr (f s)) s"
  by (simp add: wp_def getM_def)

lemma wp_mod [wp]: "wp (modM f) Q s = Q (Inr ()) (f s)"
  by (simp add: wp_def modM_def)

lemma wp_lift [wp]: "wp (liftM r) Q s = Q r s"
  by (simp add: wp_def liftM_def)

lemma wp_bind [wp]:
  "wp (bindM m k) Q s = wp m (\<lambda>r t. case r of Inl e \<Rightarrow> Q (Inl e) t | Inr x \<Rightarrow> wp (k x) Q t) s"
  by (simp add: wp_def bindM_def split: prod.splits sum.splits)

lemma wp_then [wp]:
  "wp (thenM m k) Q s = wp m (\<lambda>r t. case r of Inl e \<Rightarrow> Q (Inl e) t | Inr _ \<Rightarrow> wp k Q t) s"
  by (simp add: thenM_def wp_bind)

lemma wp_when [wp]: "wp (whenM b m) Q s = (if b then wp m Q s else Q (Inr ()) s)"
  by (simp add: whenM_def wp_ret)

lemma wp_if [wp]: "wp (if b then m else n) Q s = (if b then wp m Q s else wp n Q s)"
  by simp

lemma wp_catch [wp]:
  "wp (catchM m h1 h2) Q s =
     wp m (\<lambda>r t. case r of Inr x \<Rightarrow> Q (Inr x) t
        | Inl e \<Rightarrow> (case e of StdException w \<Rightarrow> wp (h1 w) Q t | UnknownException \<Rightarrow> wp h2 Q t
                   | Terminated \<Rightarrow> Q (Inl Terminated) t)) s"
  by (simp add: wp_def catchM_def split: prod.splits sum.splits exn.splits)

lemma wp_finally [wp]:
  "wp (finallyM m d) Q s =
     wp m (\<lambda>r t. if r = Inl Terminated then Q r t
        else wp d (\<lambda>r' u. case r' of Inl _ \<Rightarrow> Q (Inl Terminated) u | Inr _ \<Rightarrow> Q r u) t) s"
  by (simp add: wp_def finallyM_def split: prod.splits sum.splits)

lemma wp_mono: "wp m Q s \<Longrightarrow> (\<And>r t. Q r t \<Longrightarrow> R r t) \<Longrightarrow> wp m R s"
  by (auto simp: wp_def split: prod.splits)

lemma wp_conj: "wp m (\<lambda>r t. Q r t \<and> R r t) s = (wp m Q s \<and> wp m R s)"
  by (auto simp: wp_def split: prod.splits)

lemma wpD: "wp m Q s \<Longrightarrow> m s = (r, t) \<Longrightarrow> Q r t"
  by (simp add: wp_def)

lemma wpI: "(\<And>r t. m s = (r, t) \<Longrightarrow> Q r t) \<Longrightarrow> wp m Q s"
  by (cases "m s") (simp add: wp_def)

text \<open>
  A condition that every way out of a program keeps, and its compositional rules. Nothing is
  asked of a process that has been terminated.
\<close>

definition keeps :: "('s \<Rightarrow> bool) \<Rightarrow> ('s, 'a) prog \<Rightarrow> bool" where
  "keeps I m = (\<forall>s. I s \<longrightarrow> wp m (\<lambda>r t. r = Inl Terminated \<or> I t) s)"

named_theorems keeps "programs that keep a condition"

lemma keepsI: "(\<And>s. I s \<Longrightarrow> wp m (\<lambda>r t. r = Inl Terminated \<or> I t) s) \<Longrightarrow> keeps I m"
  by (simp add: keeps_def)

lemma keeps_wp: "keeps I m \<Longrightarrow> I s \<Longrightarrow> wp m (\<lambda>r t. r = Inl Terminated \<or> I t) s"
  by (simp add: keeps_def)

lemma keepsD: "keeps I m \<Longrightarrow> I s \<Longrightarrow> m s = (r, t) \<Longrightarrow> r \<noteq> Inl Terminated \<Longrightarrow> I t"
  by (auto dest: keeps_wp wpD)

lemma wp_keeps: "keeps I m \<Longrightarrow> I s \<Longrightarrow> (\<And>r t. r = Inl Terminated \<or> I t \<Longrightarrow> Q r t) \<Longrightarrow> wp m Q s"
  by (rule wp_mono [OF keeps_wp])

lemma keeps_ret [keeps]: "keeps I (retM x)"
  by (simp add: keeps_def wp)

lemma keeps_throw [keeps]: "keeps I (throwM e)"
  by (simp add: keeps_def wp)

lemma keeps_get [keeps]: "keeps I (getM f)"
  by (simp add: keeps_def wp)

lemma keeps_lift [keeps]: "keeps I (liftM r)"
  by (simp add: keeps_def wp)

lemma keeps_mod: "(\<And>s. I s \<Longrightarrow> I (f s)) \<Longrightarrow> keeps I (modM f)"
  by (simp add: keeps_def wp)

lemma keeps_bind [keeps]: "keeps I m \<Longrightarrow> (\<And>x. keeps I (k x)) \<Longrightarrow> keeps I (bindM m k)"
  by (rule keepsI) (auto simp: wp elim!: wp_keeps dest: keeps_wp split: sum.splits)

text \<open>Where what a value comes from matters: a checked value, or one read from a kept state.\<close>

lemma keeps_bind_lift: "(\<And>x. r = Inr x \<Longrightarrow> keeps I (k x)) \<Longrightarrow> keeps I (bindM (liftM r) k)"
  by (cases r) (auto simp: keeps_def wp)

lemma keeps_bind_get: "(\<And>x. (\<exists>s. I s \<and> x = f s) \<Longrightarrow> keeps I (k x)) \<Longrightarrow> keeps I (bindM (getM f) k)"
  by (fastforce simp: keeps_def wp)

lemma keeps_then [keeps]: "keeps I m \<Longrightarrow> keeps I k \<Longrightarrow> keeps I (thenM m k)"
  by (simp add: thenM_def keeps_bind)

lemma keeps_when [keeps]: "(b \<Longrightarrow> keeps I m) \<Longrightarrow> keeps I (whenM b m)"
  by (simp add: whenM_def keeps_ret)

lemma keeps_if [keeps]: "(b \<Longrightarrow> keeps I m) \<Longrightarrow> (\<not> b \<Longrightarrow> keeps I n) \<Longrightarrow> keeps I (if b then m else n)"
  by simp

lemma keeps_for [keeps]: "(\<And>x. x \<in> set xs \<Longrightarrow> keeps I (f x)) \<Longrightarrow> keeps I (forM xs f)"
  by (induction xs) (auto intro: keeps)

lemma keeps_catch [keeps]:
  "keeps I m \<Longrightarrow> (\<And>w. keeps I (h1 w)) \<Longrightarrow> keeps I h2 \<Longrightarrow> keeps I (catchM m h1 h2)"
  by (rule keepsI) (auto simp: wp elim!: wp_keeps dest: keeps_wp split: sum.splits exn.splits)

lemma keeps_finally [keeps]: "keeps I m \<Longrightarrow> keeps I d \<Longrightarrow> keeps I (finallyM m d)"
  by (rule keepsI) (auto simp: wp elim!: wp_keeps split: sum.splits)

lemma keeps_case_option [keeps]:
  "(x = None \<Longrightarrow> keeps I m) \<Longrightarrow> (\<And>y. x = Some y \<Longrightarrow> keeps I (k y)) \<Longrightarrow> keeps I (case x of None \<Rightarrow> m | Some y \<Rightarrow> k y)"
  by (cases x) simp_all

lemma keeps_case_prod [keeps]: "(\<And>a b. x = (a, b) \<Longrightarrow> keeps I (k a b)) \<Longrightarrow> keeps I (case x of (a, b) \<Rightarrow> k a b)"
  by (cases x) simp

lemma keeps_case_sum [keeps]:
  "(\<And>a. x = Inl a \<Longrightarrow> keeps I (f a)) \<Longrightarrow> (\<And>b. x = Inr b \<Longrightarrow> keeps I (g b)) \<Longrightarrow> keeps I (case x of Inl a \<Rightarrow> f a | Inr b \<Rightarrow> g b)"
  by (cases x) simp_all

lemma keeps_let [keeps]: "(\<And>y. y = x \<Longrightarrow> keeps I (k y)) \<Longrightarrow> keeps I (let y = x in k y)"
  by simp

text \<open>A condition on every result, and on every exception, with their rules.\<close>

definition yields :: "('a \<Rightarrow> bool) \<Rightarrow> ('s, 'a) prog \<Rightarrow> bool" where
  "yields P m = (\<forall>s. wp m (\<lambda>r t. \<forall>x. r = Inr x \<longrightarrow> P x) s)"

definition throws :: "(exn \<Rightarrow> bool) \<Rightarrow> ('s, 'a) prog \<Rightarrow> bool" where
  "throws E m = (\<forall>s. wp m (\<lambda>r t. \<forall>e. r = Inl e \<longrightarrow> E e) s)"

named_theorems yields "programs whose results satisfy a condition"
named_theorems throws "programs whose exceptions satisfy a condition"

lemma yieldsI: "(\<And>s. wp m (\<lambda>r t. \<forall>x. r = Inr x \<longrightarrow> P x) s) \<Longrightarrow> yields P m"
  by (simp add: yields_def)

lemma yieldsD: "yields P m \<Longrightarrow> m s = (Inr x, t) \<Longrightarrow> P x"
  by (auto simp: yields_def dest: wpD [rotated])

lemma yields_wp: "yields P m \<Longrightarrow> wp m (\<lambda>r t. \<forall>x. r = Inr x \<longrightarrow> P x) s"
  by (simp add: yields_def)

lemma yields_iff: "yields P m \<longleftrightarrow> (\<forall>s x. fst (m s) = Inr x \<longrightarrow> P x)"
  by (simp add: yields_def wp_def split_beta)

lemma yields_ret [yields]: "P x \<Longrightarrow> yields P (retM x)"
  by (simp add: yields_def wp)

lemma yields_get: "(\<And>s. P (f s)) \<Longrightarrow> yields P (getM f)"
  by (simp add: yields_def wp)

lemma yields_throw [yields]: "yields P (throwM e)"
  by (simp add: yields_def wp)

lemma yields_bind_strong: "yields Q m \<Longrightarrow> (\<And>x. Q x \<Longrightarrow> yields P (k x)) \<Longrightarrow> yields P (bindM m k)"
  by (fastforce simp: yields_iff bindM_def split_beta split: sum.splits)

lemma yields_bind [yields]: "(\<And>x. yields P (k x)) \<Longrightarrow> yields P (bindM m k)"
  by (rule yields_bind_strong [of "\<lambda>_. True"]) (auto simp: yields_iff)

lemma yields_then [yields]: "yields P k \<Longrightarrow> yields P (thenM m k)"
  by (simp add: thenM_def yields_bind)

lemma yields_if [yields]: "(b \<Longrightarrow> yields P m) \<Longrightarrow> (\<not> b \<Longrightarrow> yields P n) \<Longrightarrow> yields P (if b then m else n)"
  by simp

lemma yields_catch [yields]:
  "yields P m \<Longrightarrow> (\<And>w. yields P (h1 w)) \<Longrightarrow> yields P h2 \<Longrightarrow> yields P (catchM m h1 h2)"
  by (fastforce simp: yields_iff catchM_def split_beta split: sum.splits exn.splits)

lemma yields_finally [yields]: "yields P m \<Longrightarrow> yields P (finallyM m d)"
  by (fastforce simp: yields_iff finallyM_def split_beta split: sum.splits if_splits)

lemma yields_case_option [yields]:
  "(x = None \<Longrightarrow> yields P m) \<Longrightarrow> (\<And>y. x = Some y \<Longrightarrow> yields P (k y)) \<Longrightarrow> yields P (case x of None \<Rightarrow> m | Some y \<Rightarrow> k y)"
  by (cases x) simp_all

lemma yields_case_prod [yields]: "(\<And>a b. x = (a, b) \<Longrightarrow> yields P (k a b)) \<Longrightarrow> yields P (case x of (a, b) \<Rightarrow> k a b)"
  by (cases x) simp

lemma yields_let [yields]: "(\<And>y. y = x \<Longrightarrow> yields P (k y)) \<Longrightarrow> yields P (let y = x in k y)"
  by simp

lemma throwsI: "(\<And>s. wp m (\<lambda>r t. \<forall>e. r = Inl e \<longrightarrow> E e) s) \<Longrightarrow> throws E m"
  by (simp add: throws_def)

lemma throws_wp: "throws E m \<Longrightarrow> wp m (\<lambda>r t. \<forall>e. r = Inl e \<longrightarrow> E e) s"
  by (simp add: throws_def)

lemma throwsD: "throws E m \<Longrightarrow> m s = (Inl e, t) \<Longrightarrow> E e"
  by (auto simp: throws_def dest: wpD [rotated])

lemma throws_iff: "throws E m \<longleftrightarrow> (\<forall>s e. fst (m s) = Inl e \<longrightarrow> E e)"
  by (simp add: throws_def wp_def split_beta)

lemma throws_ret [throws]: "throws E (retM x)" "throws E (getM f)" "throws E (modM g)"
  by (simp_all add: throws_def wp)

lemma throws_bind [throws]: "throws E m \<Longrightarrow> (\<And>x. throws E (k x)) \<Longrightarrow> throws E (bindM m k)"
  by (fastforce simp: throws_iff bindM_def split_beta split: sum.splits)

lemma throws_then [throws]: "throws E m \<Longrightarrow> throws E k \<Longrightarrow> throws E (thenM m k)"
  by (simp add: thenM_def throws_bind)

lemma throws_if [throws]: "(b \<Longrightarrow> throws E m) \<Longrightarrow> (\<not> b \<Longrightarrow> throws E n) \<Longrightarrow> throws E (if b then m else n)"
  by simp

lemma throws_case_option [throws]:
  "throws E m \<Longrightarrow> (\<And>y. throws E (k y)) \<Longrightarrow> throws E (case x of None \<Rightarrow> m | Some y \<Rightarrow> k y)"
  by (cases x) simp_all

lemma throws_for [throws]: "(\<And>x. throws E (f x)) \<Longrightarrow> throws E (forM xs f)"
  by (induction xs) (auto intro: throws)

lemma throws_catch [throws]:
  "(\<And>w. throws ((=) Terminated) (h1 w)) \<Longrightarrow> throws ((=) Terminated) h2 \<Longrightarrow> throws ((=) Terminated) (catchM m h1 h2)"
  by (fastforce simp: throws_iff catchM_def split_beta split: sum.splits exn.splits)

lemma throws_finally [throws]:
  "throws ((=) Terminated) m \<Longrightarrow> throws ((=) Terminated) (finallyM m d)"
  by (fastforce simp: throws_iff finallyM_def split_beta split: sum.splits)

text \<open>
  The two together, with what is known before: from a state in \<open>P\<close> a result \<open>x\<close> comes with a state in
  \<open>Q x\<close> and an exception with a state in \<open>E\<close>.
\<close>

definition triple :: "('s \<Rightarrow> bool) \<Rightarrow> ('s, 'a) prog \<Rightarrow> ('a \<Rightarrow> 's \<Rightarrow> bool) \<Rightarrow> ('s \<Rightarrow> bool) \<Rightarrow> bool" where
  "triple P m Q E = (\<forall>s. P s \<longrightarrow> wp m (\<lambda>r t. case r of Inl e \<Rightarrow> e = Terminated \<or> E t | Inr x \<Rightarrow> Q x t) s)"

lemma tripleI: "(\<And>s. P s \<Longrightarrow> wp m (\<lambda>r t. case r of Inl e \<Rightarrow> e = Terminated \<or> E t | Inr x \<Rightarrow> Q x t) s) \<Longrightarrow> triple P m Q E"
  by (simp add: triple_def)

lemma triple_wp: "triple P m Q E \<Longrightarrow> P s \<Longrightarrow> wp m (\<lambda>r t. case r of Inl e \<Rightarrow> e = Terminated \<or> E t | Inr x \<Rightarrow> Q x t) s"
  by (simp add: triple_def)

lemma tripleD: "triple P m Q E \<Longrightarrow> P s \<Longrightarrow> m s = (Inr x, t) \<Longrightarrow> Q x t"
  by (auto dest!: triple_wp wpD)

lemma triple_iff: "triple P m Q E \<longleftrightarrow> (\<forall>s. P s \<longrightarrow>
    (\<forall>e t. m s = (Inl e, t) \<longrightarrow> e = Terminated \<or> E t) \<and> (\<forall>x t. m s = (Inr x, t) \<longrightarrow> Q x t))"
  unfolding triple_def wp_def by (simp split: prod.split sum.split) blast

lemma triple_conseq:
  "triple P' m Q' E' \<Longrightarrow> (\<And>s. P s \<Longrightarrow> P' s) \<Longrightarrow> (\<And>x t. Q' x t \<Longrightarrow> Q x t) \<Longrightarrow> (\<And>t. E' t \<Longrightarrow> E t) \<Longrightarrow> triple P m Q E"
  unfolding triple_iff by blast

lemma triple_keeps: "triple I m (\<lambda>_. I) I \<longleftrightarrow> keeps I m"
  unfolding triple_iff keeps_def wp_def by (auto split: prod.splits) (metis sum.exhaust)

lemma triple_bind: "triple P m R E \<Longrightarrow> (\<And>x. triple (R x) (k x) Q E) \<Longrightarrow> triple P (bindM m k) Q E"
  unfolding triple_iff bindM_def by (fastforce split: prod.splits sum.splits)

lemma triple_then: "triple P m (\<lambda>_. R) E \<Longrightarrow> triple R k Q E \<Longrightarrow> triple P (thenM m k) Q E"
  by (simp add: thenM_def triple_bind)

lemma triple_if: "(b \<Longrightarrow> triple P m Q E) \<Longrightarrow> (\<not> b \<Longrightarrow> triple P n Q E) \<Longrightarrow> triple P (if b then m else n) Q E"
  by simp

lemma triple_when: "(b \<Longrightarrow> triple P m (\<lambda>_. Q) E) \<Longrightarrow> (\<And>s. \<not> b \<Longrightarrow> P s \<Longrightarrow> Q s) \<Longrightarrow> triple P (whenM b m) (\<lambda>_. Q) E"
  by (auto simp: triple_def wp)

lemma triple_ret: "(\<And>s. P s \<Longrightarrow> Q x s) \<Longrightarrow> triple P (retM x) Q E"
  by (simp add: triple_def wp)

lemma triple_get: "(\<And>s. P s \<Longrightarrow> Q (f s) s) \<Longrightarrow> triple P (getM f) Q E"
  by (simp add: triple_def wp)

lemma triple_mod: "(\<And>s. P s \<Longrightarrow> Q () (f s)) \<Longrightarrow> triple P (modM f) Q E"
  by (simp add: triple_def wp)

lemma triple_lift: "(\<And>s x. P s \<Longrightarrow> r = Inr x \<Longrightarrow> Q x s) \<Longrightarrow> (\<And>s. P s \<Longrightarrow> E s) \<Longrightarrow> triple P (liftM r) Q E"
  by (auto simp: triple_def wp split: sum.splits)

lemma triple_finally:
  "triple P m (\<lambda>x t. wp d (\<lambda>r u. case r of Inl _ \<Rightarrow> True | Inr _ \<Rightarrow> Q x u) t) (\<lambda>t. wp d (\<lambda>r u. case r of Inl _ \<Rightarrow> True | Inr _ \<Rightarrow> E u) t)
   \<Longrightarrow> triple P (finallyM m d) Q E"
  unfolding triple_iff finallyM_def wp_def by (fastforce split: prod.splits sum.splits if_splits)

lemma triple_facts: "(\<And>s. P s \<Longrightarrow> b) \<Longrightarrow> (b \<Longrightarrow> triple P m Q E) \<Longrightarrow> triple P m Q E"
  by (auto simp: triple_def)

lemma triple_yields: "keeps I m \<Longrightarrow> yields P m \<Longrightarrow> triple I m (\<lambda>x s. P x \<and> I s) I"
  unfolding triple_keeps [symmetric] triple_iff yields_iff by (metis fst_conv)

section \<open>Lists\<close>

text \<open>A list cut into consecutive pieces of \<open>n\<close> elements, the last one possibly shorter.\<close>

function chunks :: "nat \<Rightarrow> 'a list \<Rightarrow> 'a list list" where
  "chunks n xs = (if xs = [] \<or> n = 0 then [] else take n xs # chunks n (drop n xs))"
  by pat_completeness auto
termination
  by (relation "measure (\<lambda>(n, xs). length xs)") auto

declare chunks.simps [simp del]

lemma chunks_Nil [simp]: "chunks n [] = []"
  by (simp add: chunks.simps)

lemma chunks_append_block: "length b = n \<Longrightarrow> 0 < n \<Longrightarrow> chunks n (b @ xs) = b # chunks n xs"
  by (subst chunks.simps) auto

end
