(* ===== verification/Radix.thy ===== *)
theory Radix
  imports Prelude
begin

text \<open>
  Positional numbers, shared by base58 blocks (radix 58), byte strings (radix 256) and
  decimal text (radix 10).
\<close>

definition from_digits :: "nat \<Rightarrow> nat list \<Rightarrow> nat" where
  "from_digits b ds = foldl (\<lambda>v d. v * b + d) 0 ds"

fun to_digits :: "nat \<Rightarrow> nat \<Rightarrow> nat \<Rightarrow> nat list" where
  "to_digits b 0 v = []"
| "to_digits b (Suc k) v = to_digits b k (v div b) @ [v mod b]"

lemma from_digits_Nil [simp]: "from_digits b [] = 0"
  by (simp add: from_digits_def)

lemma from_digits_snoc [simp]: "from_digits b (ds @ [d]) = from_digits b ds * b + d"
  by (simp add: from_digits_def)

lemma from_digits_Cons: "from_digits b (d # ds) = d * b ^ length ds + from_digits b ds"
proof (induction ds rule: rev_induct)
  case Nil
  show ?case using from_digits_snoc [of b "[]" d] by simp
next
  case (snoc e es)
  then show ?case using from_digits_snoc [of b "d # es" e] by (simp add: algebra_simps)
qed

lemma length_to_digits [simp]: "length (to_digits b k v) = k"
  by (induction b k v rule: to_digits.induct) auto

lemma to_digits_rev: "to_digits b k v = map (\<lambda>i. (v div b ^ i) mod b) (rev [0..<k])"
proof (induction k arbitrary: v)
  case (Suc k)
  have "rev [0..<Suc k] = map Suc (rev [0..<k]) @ [0]"
    by (metis rev.simps(2) rev_map upt_conv_Cons map_Suc_upt zero_less_Suc)
  then show ?case by (simp add: Suc.IH div_mult2_eq comp_def del: upt_Suc)
qed simp

locale radix =
  fixes base :: nat
  assumes base_gt_1: "1 < base"
begin

lemma to_digits_less: "d \<in> set (to_digits base k v) \<Longrightarrow> d < base"
  using base_gt_1 by (induction k arbitrary: v) auto

lemma from_to_digits: "from_digits base (to_digits base k v) = v mod base ^ k"
proof (induction k arbitrary: v)
  case (Suc k)
  then show ?case using base_gt_1
    by (simp add: mod_mult2_eq mult.commute)
qed simp

lemma from_digits_less: "\<forall>d\<in>set ds. d < base \<Longrightarrow> from_digits base ds < base ^ length ds"
proof (induction ds rule: rev_induct)
  case (snoc d ds)
  then have "from_digits base ds * base + d < (from_digits base ds + 1) * base" by simp
  also have "\<dots> \<le> base ^ length ds * base"
    using snoc by (intro mult_right_mono) auto
  finally show ?case by (simp add: mult.commute)
qed simp

lemma to_from_digits: "\<forall>d\<in>set ds. d < base \<Longrightarrow> to_digits base (length ds) (from_digits base ds) = ds"
proof (induction ds rule: rev_induct)
  case (snoc d ds)
  then have "d < base" by simp
  then have "(from_digits base ds * base + d) div base = from_digits base ds"
    and "(from_digits base ds * base + d) mod base = d" by simp_all
  with snoc show ?case by simp
qed simp

lemma from_digits_inj:
  assumes "\<forall>d\<in>set ds. d < base" "\<forall>d\<in>set es. d < base" "length ds = length es"
    and "from_digits base ds = from_digits base es"
  shows "ds = es"
  using assms(3, 4) by (subst to_from_digits [OF assms(1), symmetric], subst to_from_digits [OF assms(2), symmetric]) simp

end

end
