(* ===== verification/Text.thy ===== *)
theory Text
  imports Radix
begin

text \<open>
  The text helpers at the top of \<^verbatim>\<open>src/wallet_runtime.cpp\<close>, and the parts of the C++ library's
  strings they use.
\<close>

section \<open>Library functions on strings\<close>

text \<open>\<^verbatim>\<open>std::string::find(p)\<close>: the position of the first occurrence.\<close>

fun find_sub :: "string \<Rightarrow> string \<Rightarrow> nat option" where
  "find_sub p [] = (if p = [] then Some 0 else None)"
| "find_sub p (c # s) = (if prefix p (c # s) then Some 0 else map_option Suc (find_sub p s))"

text \<open>\<^verbatim>\<open>s.find(c, start)\<close> for a character.\<close>

fun find_char :: "char \<Rightarrow> string \<Rightarrow> nat option" where
  "find_char c [] = None"
| "find_char c (x # s) = (if x = c then Some 0 else map_option Suc (find_char c s))"

lemma find_char_Some: "find_char c s = Some i \<Longrightarrow> i < length s \<and> s ! i = c"
  by (induction s arbitrary: i) (auto split: if_splits)

definition find_char_from :: "string \<Rightarrow> char \<Rightarrow> nat \<Rightarrow> nat option" where
  "find_char_from s c start = map_option (\<lambda>i. start + i) (find_char c (drop start s))"

text \<open>A C string argument ends at the first NUL of the \<^verbatim>\<open>std::string\<close> it is taken from.\<close>

definition c_str :: "string \<Rightarrow> string" where
  "c_str s = takeWhile (\<lambda>c. c \<noteq> CHR 0x00) s"

definition digit_char :: "nat \<Rightarrow> char" where
  "digit_char d = char_of (48 + d)"

definition is_digit :: "char \<Rightarrow> bool" where
  "is_digit c = (48 \<le> (of_char c :: nat) \<and> (of_char c :: nat) \<le> 57)"

definition digit_value :: "char \<Rightarrow> nat" where
  "digit_value c = of_char c - 48"

definition isxdigit :: "char \<Rightarrow> bool" where
  "isxdigit c = (let k = (of_char c :: nat) in
     48 \<le> k \<and> k \<le> 57 \<or> 65 \<le> k \<and> k \<le> 70 \<or> 97 \<le> k \<and> k \<le> 102)"

text \<open>\<^verbatim>\<open>std::to_string\<close> of an unsigned number.\<close>

fun to_string :: "nat \<Rightarrow> string" where
  "to_string n = (if n < 10 then [digit_char n] else to_string (n div 10) @ [digit_char (n mod 10)])"

declare to_string.simps [simp del]

text \<open>
  \<^verbatim>\<open>strtoull\<close> in base 10 on a string of digits: the value, and whether \<^verbatim>\<open>errno\<close> becomes
  \<^verbatim>\<open>ERANGE\<close> (then the value is the largest one).
\<close>

definition strtoull10 :: "string \<Rightarrow> u64 \<times> bool" where
  "strtoull10 s = (let v = from_digits 10 (map digit_value s) in
     if v < 2 ^ 64 then (word_of_nat v, False) else (2 ^ 64 - 1, True))"

section \<open>The helpers\<close>

function looksLikeTxid_loop :: "string \<Rightarrow> nat \<Rightarrow> bool" where
  "looksLikeTxid_loop joined start =
     (if start \<le> length joined then
        (let comma = find_char_from joined CHR '','' start;
             one = (case comma of None \<Rightarrow> drop start joined | Some c \<Rightarrow> take (c - start) (drop start joined))
         in if length one \<noteq> 64 then False
            else if \<exists>c\<in>set one. \<not> isxdigit c then False
            else (case comma of None \<Rightarrow> True
                  | Some c \<Rightarrow> looksLikeTxid_loop joined (c + 1)))
      else True)"
  by pat_completeness auto
termination
  by (relation "measure (\<lambda>(joined, start). Suc (length joined) - start)")
    (auto simp: find_char_from_def map_option_case dest!: find_char_Some split: option.splits)

declare looksLikeTxid_loop.simps [simp del]

definition looksLikeTxid :: "string \<Rightarrow> bool" where
  "looksLikeTxid joined = (if joined = [] then False else looksLikeTxid_loop joined 0)"

definition nettypeOf :: "string \<Rightarrow> int" where
  "nettypeOf network =
     (if network = ''testnet'' then 1
      else if network = ''stagenet'' then 2
      else 0)"

definition isLoopback :: "string \<Rightarrow> bool" where
  "isLoopback url \<longleftrightarrow> find_sub ''127.0.0.1'' url \<noteq> None \<or> find_sub ''localhost'' url \<noteq> None
     \<or> find_sub ''[::1]'' url \<noteq> None"

text \<open>\<^verbatim>\<open>while (!p.empty() && p.back() == '/') p.pop_back();\<close>\<close>

fun pop_slashes :: "string \<Rightarrow> string" where
  "pop_slashes p = (if p \<noteq> [] \<and> last p = CHR ''/'' then pop_slashes (butlast p) else p)"

declare pop_slashes.simps [simp del]

definition proxyHostPort :: "string \<Rightarrow> string" where
  "proxyHostPort p =
     pop_slashes (case find_sub ''://'' p of None \<Rightarrow> p | Some at \<Rightarrow> drop (at + 3) p)"

definition hostPort :: "string \<Rightarrow> string" where
  "hostPort url =
     pop_slashes (case find_sub ''://'' url of None \<Rightarrow> url | Some at \<Rightarrow> drop (at + 3) url)"

text \<open>The 32 characters a receipt is made of, from the generator's successive draws.\<close>

definition randomToken :: "u64 list \<Rightarrow> string" where
  "randomToken draws = map (\<lambda>r. ''0123456789abcdef'' ! unat (r AND 15)) (take 32 draws)"

text \<open>\<^verbatim>\<open>parseAtomic\<close>: \<open>None\<close> where it returns false.\<close>

definition parseAtomic :: "string \<Rightarrow> u64 option" where
  "parseAtomic s =
     (if s = [] \<or> (\<exists>c\<in>set s. \<not> is_digit c) then None
      else case strtoull10 s of (out, erange) \<Rightarrow> if \<not> erange then Some out else None)"

section \<open>Decimal text\<close>

interpretation decimal: radix 10
  by unfold_locales simp

lemma digit_char [simp]: "d < 10 \<Longrightarrow> is_digit (digit_char d)" "d < 10 \<Longrightarrow> digit_value (digit_char d) = d"
  by (simp_all add: is_digit_def digit_char_def digit_value_def)

lemma digit_value_less: "is_digit c \<Longrightarrow> digit_value c < 10"
  unfolding is_digit_def digit_value_def by linarith

lemma to_string_nonempty [simp]: "to_string n \<noteq> []"
  by (subst to_string.simps) simp

lemma to_string_digits: "c \<in> set (to_string n) \<Longrightarrow> is_digit c"
proof (induction n rule: to_string.induct)
  case (1 n)
  then show ?case by (subst (asm) (2) to_string.simps) (auto split: if_splits)
qed

lemma to_string_value: "from_digits 10 (map digit_value (to_string n)) = n"
proof (induction n rule: to_string.induct)
  case (1 n)
  then show ?case
    by (subst to_string.simps) (auto simp: from_digits_Cons)
qed

lemma to_string_inj: "to_string m = to_string n \<longleftrightarrow> m = n"
  by (metis to_string_value)

lemma parseAtomic_iff:
  "parseAtomic s = Some v \<longleftrightarrow>
     s \<noteq> [] \<and> (\<forall>c\<in>set s. is_digit c) \<and> from_digits 10 (map digit_value s) = unat v"
proof -
  have "unat v < 2 ^ 64" using unsigned_less [of v] by simp
  then show ?thesis
    by (auto simp: parseAtomic_def strtoull10_def Let_def unat_of_nat word_unat_eq_iff split: if_splits)
qed

lemma parseAtomic_to_string: "parseAtomic (to_string (unat v)) = Some v"
  using to_string_digits by (auto simp: parseAtomic_iff to_string_value)

section \<open>Transaction ids\<close>

text \<open>The reference: the pieces between the separators.\<close>

fun split_on :: "char \<Rightarrow> string \<Rightarrow> string list" where
  "split_on c [] = [[]]"
| "split_on c (x # s) = (if x = c then [] # split_on c s
     else case split_on c s of [] \<Rightarrow> [[x]] | w # ws \<Rightarrow> (x # w) # ws)"

definition is_txid :: "string \<Rightarrow> bool" where
  "is_txid one \<longleftrightarrow> length one = 64 \<and> (\<forall>c\<in>set one. isxdigit c)"

lemma split_on_nonempty [simp]: "split_on c s \<noteq> []"
  by (cases s) (auto split: list.splits)

lemma split_on_find: 
  "split_on c s = (case find_char c s of None \<Rightarrow> [s] | Some i \<Rightarrow> take i s # split_on c (drop (Suc i) s))"
proof (induction s)
  case (Cons x s)
  then show ?case by (cases "find_char c s") auto
qed simp

lemma looksLikeTxid_loop_split:
  "start \<le> length joined \<Longrightarrow> looksLikeTxid_loop joined start \<longleftrightarrow> (\<forall>w\<in>set (split_on CHR '','' (drop start joined)). is_txid w)"
proof (induction joined start rule: looksLikeTxid_loop.induct)
  case (1 joined start)
  show ?case
  proof (cases "find_char CHR '','' (drop start joined)")
    case None
    with 1(2) show ?thesis
      by (subst looksLikeTxid_loop.simps, subst split_on_find) (auto simp: find_char_from_def is_txid_def)
  next
    case (Some i)
    have "i < length (drop start joined)"
      using Some by (auto dest: find_char_Some)
    then have i: "start + i + 1 \<le> length joined" by simp
    have eq: "looksLikeTxid_loop joined start \<longleftrightarrow>
        is_txid (take i (drop start joined)) \<and> looksLikeTxid_loop joined (start + i + 1)"
      using 1(2) Some by (subst looksLikeTxid_loop.simps) (auto simp: find_char_from_def is_txid_def)
    show ?thesis
    proof (cases "is_txid (take i (drop start joined))")
      case True
      have "looksLikeTxid_loop joined (start + i + 1) \<longleftrightarrow>
          (\<forall>w\<in>set (split_on CHR '','' (drop (start + i + 1) joined)). is_txid w)"
        using 1(1) [OF 1(2) refl refl] True Some i by (simp add: find_char_from_def is_txid_def)
      with True eq Some show ?thesis by (subst split_on_find) (simp add: add.commute)
    next
      case False
      with eq Some show ?thesis by (subst split_on_find) simp
    qed
  qed
qed

lemma looksLikeTxid_iff: "looksLikeTxid s \<longleftrightarrow> (\<forall>w\<in>set (split_on CHR '','' s). is_txid w)"
  using looksLikeTxid_loop_split [of 0 s] by (auto simp: looksLikeTxid_def is_txid_def)

section \<open>Hosts and ports\<close>

lemma pop_slashes_last: "pop_slashes p = [] \<or> last (pop_slashes p) \<noteq> CHR ''/''"
proof (induction p rule: pop_slashes.induct)
  case (1 p)
  then show ?case
    by (cases "p \<noteq> [] \<and> last p = CHR ''/''") (auto simp: pop_slashes.simps [of p])
qed

lemma pop_slashes_id: "p = [] \<or> last p \<noteq> CHR ''/'' \<Longrightarrow> pop_slashes p = p"
  by (subst pop_slashes.simps) auto

lemma pop_slashes_prefix: "\<exists>n. p = pop_slashes p @ replicate n CHR ''/''"
proof (induction p rule: pop_slashes.induct)
  case (1 p)
  show ?case
  proof (cases "p \<noteq> [] \<and> last p = CHR ''/''")
    case True
    then obtain n where "butlast p = pop_slashes p @ replicate n CHR ''/''"
      using 1 pop_slashes.simps [of p] by auto
    then have "p = pop_slashes p @ replicate (Suc n) CHR ''/''"
      using True by (metis append_assoc append_butlast_last_id replicate_Suc replicate_append_same)
    then show ?thesis by blast
  next
    case False
    then have "pop_slashes p = p" by (intro pop_slashes_id) auto
    then show ?thesis by (intro exI [of _ 0]) simp
  qed
qed

lemma hostPort_proxyHostPort: "hostPort = proxyHostPort"
  by (simp add: fun_eq_iff hostPort_def proxyHostPort_def)

lemma find_sub_prefix: "find_sub p s = Some i \<Longrightarrow> prefix p (drop i s)"
  by (induction s arbitrary: i) (auto split: if_splits)

lemma find_sub_append:
  assumes "prefix p r" "\<And>i. i < length s \<Longrightarrow> \<not> prefix p (drop i s @ r)"
  shows "find_sub p (s @ r) = Some (length s)"
  using assms
proof (induction s)
  case Nil
  then show ?case by (cases r) auto
next
  case (Cons x s)
  from Cons.prems(2) [of 0] have "\<not> prefix p (x # s @ r)" by simp
  moreover have "find_sub p (s @ r) = Some (length s)"
    using Cons.prems(2) [of "Suc i" for i] by (intro Cons.IH Cons.prems(1)) simp
  ultimately show ?case by simp
qed

text \<open>A scheme ends at the first colon.\<close>

lemma find_scheme:
  assumes "\<forall>c\<in>set scheme. c \<noteq> CHR '':''"
  shows "find_sub ''://'' (scheme @ ''://'' @ r) = Some (length scheme)"
proof (rule find_sub_append)
  fix i assume "i < length scheme"
  then obtain x y where "drop i scheme = x # y" "x \<in> set scheme"
    by (metis Cons_nth_drop_Suc nth_mem)
  then show "\<not> prefix ''://'' (drop i scheme @ ''://'' @ r)"
    using assms by auto
qed (simp add: prefix_def)

text \<open>A scheme and trailing slashes around a host and port are dropped.\<close>

lemma hostPort_url:
  assumes "\<forall>c\<in>set scheme. c \<noteq> CHR '':''" "hp \<noteq> []" "last hp \<noteq> CHR ''/''"
  shows "hostPort (scheme @ ''://'' @ hp @ replicate n CHR ''/'') = hp"
proof -
  have "find_sub ''://'' (scheme @ ''://'' @ hp @ replicate n CHR ''/'') = Some (length scheme)"
    by (rule find_scheme [OF assms(1)])
  moreover have "pop_slashes (hp @ replicate n CHR ''/'') = hp"
  proof (induction n)
    case 0
    with assms(2, 3) show ?case by (simp add: pop_slashes_id)
  next
    case (Suc n)
    have "replicate (Suc n) CHR ''/'' = replicate n CHR ''/'' @ ''/''" by (simp add: replicate_append_same)
    with Suc show ?case by (subst pop_slashes.simps) (simp add: butlast_append del: replicate_Suc)
  qed
  ultimately show ?thesis by (simp add: hostPort_def)
qed

section \<open>C strings\<close>

lemma c_str_id: "CHR 0x00 \<notin> set s \<Longrightarrow> c_str s = s"
  by (auto simp: c_str_def takeWhile_eq_all_conv)

lemma NUL_notin_c_str: "CHR 0x00 \<notin> set (c_str s)"
  by (auto simp: c_str_def dest: set_takeWhileD)

lemma length_randomToken: "length draws = 32 \<Longrightarrow> length (randomToken draws) = 32"
  by (simp add: randomToken_def)

lemma randomToken_hex: "c \<in> set (randomToken draws) \<Longrightarrow> isxdigit c"
proof -
  have "unat (r AND 15 :: u64) < 16" for r
    using word_and_le1 [of r 15] by (simp add: word_le_nat_alt le_less_trans)
  moreover have "\<forall>k\<in>{..<16}. isxdigit (''0123456789abcdef'' ! k)" by code_simp
  ultimately show "c \<in> set (randomToken draws) \<Longrightarrow> isxdigit c" by (auto simp: randomToken_def)
qed

section \<open>What the helpers accept\<close>

text \<open>C37. An amount parses exactly when it is a nonempty string of decimal digits whose value fits 64 bits, and then to
  that value: no sign, space or overflow passes. What the module prints parses back.\<close>

theorem parseAtomic_correct:
  "(parseAtomic s = Some v \<longleftrightarrow>
     s \<noteq> [] \<and> (\<forall>c\<in>set s. is_digit c) \<and> from_digits 10 (map digit_value s) = unat v) \<and>
   parseAtomic (to_string (unat v)) = Some v"
  using parseAtomic_iff parseAtomic_to_string by blast

lemma parseAtomic_correct_witness: "parseAtomic ''184'' = Some 184 \<and> parseAtomic ''-1'' = None"
proof -
  have "from_digits 10 (map digit_value ''184'') = unat (184 :: u64)" "\<forall>c\<in>set ''184''. is_digit c"
    by code_simp+
  moreover have "\<not> (\<forall>c\<in>set ''-1''. is_digit c)" by code_simp
  ultimately show ?thesis
    using parseAtomic_correct [of "''184''" 184] parseAtomic_correct [of "''-1''"] by (metis not_None_eq list.distinct(1))
qed

text \<open>A reported transaction id is shown only if every piece between its commas is 64 hexadecimal
  characters; an empty answer, an empty piece and a truncated one are not.\<close>

theorem looksLikeTxid_correct:
  "looksLikeTxid s \<longleftrightarrow> (\<forall>w\<in>set (split_on CHR '','' s). length w = 64 \<and> (\<forall>c\<in>set w. isxdigit c))"
  using looksLikeTxid_iff by (simp add: is_txid_def)

lemma looksLikeTxid_correct_witness:
  "looksLikeTxid (replicate 64 CHR ''a'') \<and> \<not> looksLikeTxid [] \<and> \<not> looksLikeTxid (replicate 64 CHR ''a'' @ '','')"
proof -
  have "split_on CHR '','' (replicate n CHR ''a'') = [replicate n CHR ''a'']" for n
    by (induction n) simp_all
  moreover have "split_on CHR '','' (replicate n CHR ''a'' @ '','') = [replicate n CHR ''a'', []]" for n
    by (induction n) simp_all
  moreover have "isxdigit CHR ''a''" by code_simp
  ultimately show ?thesis by (simp add: looksLikeTxid_correct)
qed

text \<open>The host and port of a node's or proxy's URL: the scheme and the trailing slashes are dropped and nothing
  else, for any scheme without a colon and any host and port that does not end in a slash.\<close>

theorem hostPort_drops_scheme:
  assumes "\<forall>c\<in>set scheme. c \<noteq> CHR '':''" "hp \<noteq> []" "last hp \<noteq> CHR ''/''"
  shows "hostPort (scheme @ ''://'' @ hp @ replicate n CHR ''/'') = hp \<and>
    proxyHostPort (scheme @ ''://'' @ hp @ replicate n CHR ''/'') = hp"
  using hostPort_url [OF assms] by (simp add: hostPort_proxyHostPort [symmetric])

lemma hostPort_drops_scheme_witness: "hostPort ''http://node.example:18081/'' = ''node.example:18081''"
  using hostPort_drops_scheme [of "''http''" "''node.example:18081''" 1] by simp

end
