(* ===== verification/Names.thy ===== *)
theory Names
  imports Text
begin

text \<open>
  The interface of a table whose keys the program issues itself, a prefix and a running 64-bit
  number: the tickets (\<^verbatim>\<open>"j" + std::to_string(m_nextId++)\<close>) and the transactions not yet sent
  (\<^verbatim>\<open>"tx" + std::to_string(m_nextTx++)\<close>). A name is never issued twice before the number wraps.
\<close>

locale issued_names =
  fixes pre :: string
    and counter :: "'s \<Rightarrow> u64"
    and table :: "'s \<Rightarrow> string \<Rightarrow> 'v option"
    and ins :: "'v \<Rightarrow> 's \<Rightarrow> 's"
    and del :: "string \<Rightarrow> 's \<Rightarrow> 's"
  assumes counter_ins: "counter (ins v s) = counter s + 1"
    and table_ins: "table (ins v s) = (table s)(pre @ to_string (unat (counter s)) \<mapsto> v)"
    and counter_del: "counter (del k s) = counter s"
    and table_del: "table (del k s) = (table s)(k := None)"
begin

definition name :: "'s \<Rightarrow> string" where
  "name s = pre @ to_string (unat (counter s))"

text \<open>Every key in use was issued before.\<close>

definition issued :: "'s \<Rightarrow> string \<Rightarrow> bool" where
  "issued s k \<longleftrightarrow> (\<exists>n. k = pre @ to_string n \<and> n < unat (counter s))"

definition wf :: "'s \<Rightarrow> bool" where
  "wf s \<longleftrightarrow> (\<forall>k\<in>dom (table s). issued s k)"

lemma counter_Suc: "counter s \<noteq> - 1 \<Longrightarrow> unat (counter s + 1) = Suc (unat (counter s))"
  by (metis add.commute unatSuc add_eq_0_iff minus_equation_iff)

lemma not_issued_name: "\<not> issued s (name s)"
  by (simp add: issued_def name_def to_string_inj)

lemma fresh: "wf s \<Longrightarrow> table s (name s) = None"
  using not_issued_name by (auto simp: wf_def dom_def)

lemma issued_mono: "issued s k \<Longrightarrow> unat (counter s) \<le> unat (counter t) \<Longrightarrow> issued t k"
  by (auto simp: issued_def)

lemma issued_ins: "counter s \<noteq> - 1 \<Longrightarrow> issued (ins v s) k \<longleftrightarrow> issued s k \<or> k = name s"
  by (auto simp: issued_def name_def counter_ins counter_Suc to_string_inj less_Suc_eq)

lemma issued_del: "issued (del k s) k' = issued s k'"
  by (simp add: issued_def counter_del)

lemma wf_ins: "wf s \<Longrightarrow> counter s \<noteq> - 1 \<Longrightarrow> wf (ins v s)"
  by (auto simp: wf_def issued_ins table_ins name_def)

lemma wf_del: "wf s \<Longrightarrow> wf (del k s)"
  by (auto simp: wf_def issued_del table_del split: if_splits)

lemma ins_keeps_others: "wf s \<Longrightarrow> table s k = Some v \<Longrightarrow> table (ins v' s) k = Some v"
  using fresh by (auto simp: table_ins name_def)

lemma wf_cong: "table s = table t \<Longrightarrow> counter s = counter t \<Longrightarrow> wf s = wf t"
  by (simp add: wf_def issued_def)

end

end
