(* ===== verification/Json.thy ===== *)
theory Json
  imports Prelude "HOL-Library.AList"
begin

text \<open>
  JSON values as the module passes them (\<^verbatim>\<open>nlohmann::json\<close>) and the accessors
  \<^verbatim>\<open>src/wallet_runtime.cpp\<close> reads them with. An object keeps its members as a list of pairs;
  only lookups read it. A floating-point number is kept as the integer it truncates to, the
  only thing the code reads of one. The text of the library's exceptions is a parameter: a
  function \<open>what\<close> of the type that was wanted and the value found.
\<close>

datatype json =
    JNull
  | JBool bool
  | JInt int
  | JFloat int
  | JStr string
  | JArr "json list"
  | JObj "(string \<times> json) list"

type_synonym what = "string \<Rightarrow> json \<Rightarrow> string"

fun is_object :: "json \<Rightarrow> bool" where
  "is_object (JObj m) = True"
| "is_object _ = False"

text \<open>\<^verbatim>\<open>j.find(key)\<close> and \<^verbatim>\<open>j.contains(key)\<close>: nothing is found in a value that is no object.\<close>

fun jfind :: "json \<Rightarrow> string \<Rightarrow> json option" where
  "jfind (JObj m) k = map_of m k"
| "jfind _ k = None"

definition contains :: "json \<Rightarrow> string \<Rightarrow> bool" where
  "contains j k = (jfind j k \<noteq> None)"

text \<open>\<^verbatim>\<open>j[key] = v\<close> on an object.\<close>

fun jset :: "json \<Rightarrow> string \<Rightarrow> json \<Rightarrow> json" where
  "jset (JObj m) k v = JObj (AList.update k v m)"
| "jset j k v = j"

text \<open>
  \<^verbatim>\<open>j.value(key, fallback)\<close>: the fallback for a missing key, an exception for a value of
  another type or where \<open>j\<close> is no object.
\<close>

definition value_with :: "what \<Rightarrow> (json \<Rightarrow> exn + 'a) \<Rightarrow> json \<Rightarrow> string \<Rightarrow> 'a \<Rightarrow> exn + 'a" where
  "value_with what conv j k d =
     (if is_object j then (case jfind j k of None \<Rightarrow> Inr d | Some v \<Rightarrow> conv v)
      else Inl (StdException (what ''value'' j)))"

fun as_str :: "what \<Rightarrow> json \<Rightarrow> exn + string" where
  "as_str what (JStr s) = Inr s"
| "as_str what v = Inl (StdException (what ''string'' v))"

fun as_bool :: "what \<Rightarrow> json \<Rightarrow> exn + bool" where
  "as_bool what (JBool b) = Inr b"
| "as_bool what v = Inl (StdException (what ''boolean'' v))"

text \<open>An integer of a C type other than JSON's own number types also reads from a boolean.\<close>

fun as_num :: "what \<Rightarrow> json \<Rightarrow> exn + int" where
  "as_num what (JInt i) = Inr i"
| "as_num what (JFloat i) = Inr i"
| "as_num what (JBool b) = Inr (if b then 1 else 0)"
| "as_num what v = Inl (StdException (what ''number'' v))"

definition value_str :: "what \<Rightarrow> json \<Rightarrow> string \<Rightarrow> string \<Rightarrow> exn + string" where
  "value_str what = value_with what (as_str what)"

definition value_bool :: "what \<Rightarrow> json \<Rightarrow> string \<Rightarrow> bool \<Rightarrow> exn + bool" where
  "value_bool what = value_with what (as_bool what)"

definition value_num :: "what \<Rightarrow> json \<Rightarrow> string \<Rightarrow> int \<Rightarrow> exn + int" where
  "value_num what = value_with what (as_num what)"

definition value_json :: "what \<Rightarrow> json \<Rightarrow> string \<Rightarrow> json \<Rightarrow> exn + json" where
  "value_json what = value_with what Inr"

section \<open>The module's own helpers\<close>

definition err :: "string \<Rightarrow> json" where
  "err msg = JObj [(''ok'', JBool False), (''error'', JStr msg)]"

definition ok_result :: "json \<Rightarrow> json" where
  "ok_result r = JObj [(''ok'', JBool True), (''result'', r)]"

text \<open>\<^verbatim>\<open>str\<close>: a JSON null, a missing member and any other type read as empty.\<close>

definition str :: "json \<Rightarrow> string \<Rightarrow> string" where
  "str j k = (case jfind j k of Some (JStr s) \<Rightarrow> s | _ \<Rightarrow> [])"

lemma value_str_simps:
  "value_str what (JObj m) k d = (case map_of m k of None \<Rightarrow> Inr d | Some v \<Rightarrow> as_str what v)"
  by (simp add: value_str_def value_with_def)

lemma value_bool_simps:
  "value_bool what (JObj m) k d = (case map_of m k of None \<Rightarrow> Inr d | Some v \<Rightarrow> as_bool what v)"
  by (simp add: value_bool_def value_with_def)

lemma value_num_simps:
  "value_num what (JObj m) k d = (case map_of m k of None \<Rightarrow> Inr d | Some v \<Rightarrow> as_num what v)"
  by (simp add: value_num_def value_with_def)

lemma value_json_simps:
  "value_json what (JObj m) k d = (case map_of m k of None \<Rightarrow> Inr d | Some v \<Rightarrow> Inr v)"
  by (simp add: value_json_def value_with_def)

lemmas value_simps = value_str_simps value_bool_simps value_num_simps value_json_simps

end
