(* ===== verification/Tickets.thy ===== *)
theory Tickets
  imports Names Json
begin

text \<open>
  The tickets of \<^verbatim>\<open>WalletRuntime\<close>: \<^verbatim>\<open>startJob\<close>, \<^verbatim>\<open>jobStatus\<close>, \<^verbatim>\<open>jobResult\<close>, \<^verbatim>\<open>ackJob\<close>,
  \<^verbatim>\<open>cancelJob\<close>, the worker taking the next job and settling it. A \<^verbatim>\<open>shared_ptr<Job>\<close> is an address:
  the table, the queue and the worker share the job objects, so an assignment through one is seen
  through the others. Each operation runs under \<^verbatim>\<open>m_qmu\<close> and is one step.
\<close>

section \<open>The state\<close>

record job =
  j_id :: string
  j_receipt :: string
  j_kind :: string
  j_state :: string
  j_error :: string
  j_params :: json
  j_result :: json
  j_progress :: json
  j_acked :: bool

definition new_job :: job where
  "new_job = \<lparr>j_id = [], j_receipt = [], j_kind = [], j_state = ''queued'', j_error = [],
     j_params = JNull, j_result = JNull, j_progress = JNull, j_acked = False\<rparr>"

type_synonym ptr = nat

record tickets =
  heap :: "ptr \<Rightarrow> job"
  heap_top :: ptr
  m_jobs :: "string \<rightharpoonup> ptr"
  m_queue :: "ptr list"
  m_stop :: bool
  m_nextId :: u64

definition init_tickets :: tickets where
  "init_tickets = \<lparr>heap = (\<lambda>_. new_job), heap_top = 0, m_jobs = Map.empty, m_queue = [],
     m_stop = False, m_nextId = 1\<rparr>"

abbreviation update_job :: "ptr \<Rightarrow> (job \<Rightarrow> job) \<Rightarrow> tickets \<Rightarrow> tickets" where
  "update_job p f t \<equiv> t\<lparr>heap := (heap t)(p := f (heap t p))\<rparr>"

section \<open>The operations\<close>

definition kinds :: "string list" where
  "kinds = [''open_wallet'', ''create_wallet'', ''restore_from_seed'', ''restore_from_keys'',
     ''close_wallet'', ''rescan'', ''create_transaction'', ''commit_transaction'',
     ''dispose_transaction'', ''change_password'']"

text \<open>\<^verbatim>\<open>std::make_shared<Job>()\<close>: an object of its own.\<close>

definition make_job :: "job \<Rightarrow> tickets \<Rightarrow> ptr \<times> tickets" where
  "make_job j t = (heap_top t, t\<lparr>heap := (heap t)(heap_top t := j), heap_top := heap_top t + 1\<rparr>)"

text \<open>The name, the table entry and the place in the queue, under the lock.\<close>

definition enqueue :: "ptr \<Rightarrow> tickets \<Rightarrow> tickets" where
  "enqueue p t = (let i = ''j'' @ to_string (unat (m_nextId t)) in
     (update_job p (\<lambda>j. j\<lparr>j_id := i\<rparr>) t)\<lparr>m_nextId := m_nextId t + 1,
        m_jobs := (m_jobs t)(i \<mapsto> p), m_queue := m_queue t @ [p]\<rparr>)"

definition startJob :: "string \<Rightarrow> string \<Rightarrow> json \<Rightarrow> u64 list \<Rightarrow> tickets \<Rightarrow> json \<times> tickets" where
  "startJob walletsDir kind params draws t =
     (if kind \<notin> set kinds then (err (''unknown job kind: '' @ kind), t)
      else if walletsDir = [] then (err ''module context not ready (no wallets directory)'', t)
      else let (p, t1) = make_job (new_job\<lparr>j_kind := kind,
               j_params := (if is_object params then params else JObj []),
               j_receipt := randomToken draws\<rparr>) t;
             t2 = enqueue p t1
        in (JObj [(''ok'', JBool True), (''jobId'', JStr (j_id (heap t2 p))),
              (''receipt'', JStr (j_receipt (heap t2 p)))], t2))"

text \<open>The lookup every follow-up call makes: a known name and its receipt.\<close>

definition find_job :: "tickets \<Rightarrow> string \<Rightarrow> string \<Rightarrow> ptr option" where
  "find_job t i receipt = (case m_jobs t i of
     None \<Rightarrow> None
   | Some p \<Rightarrow> if j_receipt (heap t p) \<noteq> receipt then None else Some p)"

definition jobStatus :: "string \<Rightarrow> string \<Rightarrow> tickets \<Rightarrow> json" where
  "jobStatus i receipt t = (case find_job t i receipt of
     None \<Rightarrow> err ''unknown job''
   | Some p \<Rightarrow> let j = heap t p in
       JObj [(''ok'', JBool True), (''state'', JStr (j_state j)), (''progress'', j_progress j),
         (''error'', JStr (j_error j))])"

definition jobResult :: "string \<Rightarrow> string \<Rightarrow> tickets \<Rightarrow> json" where
  "jobResult i receipt t = (case find_job t i receipt of
     None \<Rightarrow> err ''unknown job''
   | Some p \<Rightarrow> let j = heap t p in
       if j_acked j then err ''job already acked''
       else if j_state j = ''failed'' then err (j_error j)
       else if j_state j \<noteq> ''done'' then err (''job not finished: '' @ j_state j)
       else ok_result (j_result j))"

definition erase_job :: "string \<Rightarrow> tickets \<Rightarrow> tickets" where
  "erase_job i t = t\<lparr>m_jobs := (m_jobs t)(i := None)\<rparr>"

definition ackJob :: "string \<Rightarrow> string \<Rightarrow> tickets \<Rightarrow> bool \<times> tickets" where
  "ackJob i receipt t = (case find_job t i receipt of
     None \<Rightarrow> (False, t)
   | Some p \<Rightarrow>
       if j_state (heap t p) \<noteq> ''done'' \<and> j_state (heap t p) \<noteq> ''failed'' then (False, t)
       else (True, erase_job i t))"

text \<open>The first element of the queue that satisfies the test leaves it.\<close>

fun remove_first :: "('a \<Rightarrow> bool) \<Rightarrow> 'a list \<Rightarrow> 'a list" where
  "remove_first P [] = []"
| "remove_first P (x # xs) = (if P x then xs else x # remove_first P xs)"

definition cancelJob :: "string \<Rightarrow> string \<Rightarrow> tickets \<Rightarrow> bool \<times> tickets" where
  "cancelJob i receipt t = (case find_job t i receipt of
     None \<Rightarrow> (False, t)
   | Some p \<Rightarrow>
       if j_state (heap t p) \<noteq> ''queued'' then (False, t)
       else (True, erase_job i (t\<lparr>m_queue := remove_first (\<lambda>q. j_id (heap t q) = i) (m_queue t)\<rparr>)))"

text \<open>
  One turn of \<^verbatim>\<open>threadMain\<close> up to the end of its locked section: stop, run the front of the
  queue, or (after the wait with nothing queued) tick.
\<close>

datatype turn = Stop | RunJob ptr | Tick

definition next_turn :: "tickets \<Rightarrow> turn \<times> tickets" where
  "next_turn t =
     (if m_stop t then (Stop, t)
      else case m_queue t of
        [] \<Rightarrow> (Tick, t)
      | p # q \<Rightarrow> (RunJob p, update_job p (\<lambda>j. j\<lparr>j_state := ''running''\<rparr>) (t\<lparr>m_queue := q\<rparr>)))"

text \<open>The end of \<^verbatim>\<open>run\<close>: the job's answer stored in the job, its state returned.\<close>

definition settle :: "what \<Rightarrow> ptr \<Rightarrow> json \<Rightarrow> (tickets, string) prog" where
  "settle what p out =
     bindM (liftM (value_bool what out ''ok'' False)) (\<lambda>ok.
     thenM (if ok then
         thenM (modM (update_job p (\<lambda>j. j\<lparr>j_state := ''done''\<rparr>)))
           (bindM (liftM (value_json what out ''result'' (JObj []))) (\<lambda>r.
             modM (update_job p (\<lambda>j. j\<lparr>j_result := r\<rparr>))))
       else
         thenM (modM (update_job p (\<lambda>j. j\<lparr>j_state := ''failed''\<rparr>)))
           (bindM (liftM (value_str what out ''error'' ''unknown error'')) (\<lambda>e.
             modM (update_job p (\<lambda>j. j\<lparr>j_error := e\<rparr>)))))
       (getM (\<lambda>t. j_state (heap t p))))"

text \<open>\<^verbatim>\<open>shutdown\<close> up to its first notification: \<open>False\<close> where it was called before.\<close>

definition request_stop :: "tickets \<Rightarrow> bool \<times> tickets" where
  "request_stop t = (if m_stop t then (False, t) else (True, t\<lparr>m_stop := True\<rparr>))"

section \<open>The table of names\<close>

interpretation tn: issued_names "''j''" m_nextId m_jobs enqueue erase_job
  by unfold_locales (auto simp: enqueue_def erase_job_def Let_def)

end
