(* ===== verification/Ticket_Spec.thy ===== *)
theory Ticket_Spec
  imports Tickets
begin

text \<open>
  What the tickets promise, as a board of tickets without objects or addresses, and the proof
  that the operations of \<open>Tickets\<close> do just that: any sequence of calls and worker turns gets the
  answers the board gives. The consequences (one run per ticket, first come first served, no
  running ticket forgotten) are proved on the board.
\<close>

section \<open>The board\<close>

datatype phase = PQueued | PRunning | PDone json | PFailed string

fun phase_name :: "phase \<Rightarrow> string" where
  "phase_name PQueued = ''queued''"
| "phase_name PRunning = ''running''"
| "phase_name (PDone r) = ''done''"
| "phase_name (PFailed e) = ''failed''"

fun phase_error :: "phase \<Rightarrow> string" where
  "phase_error (PFailed e) = e"
| "phase_error _ = []"

fun settled :: "phase \<Rightarrow> bool" where
  "settled (PDone r) = True"
| "settled (PFailed e) = True"
| "settled _ = False"

record ticket =
  tk_receipt :: string
  tk_kind :: string
  tk_params :: json
  tk_phase :: phase

record board =
  bd_tickets :: "string \<rightharpoonup> ticket"
  bd_queue :: "string list"
  bd_next :: u64
  bd_stop :: bool

definition init_board :: board where
  "init_board = \<lparr>bd_tickets = Map.empty, bd_queue = [], bd_next = 1, bd_stop = False\<rparr>"

definition lookup_ticket :: "board \<Rightarrow> string \<Rightarrow> string \<Rightarrow> ticket option" where
  "lookup_ticket b i receipt = (case bd_tickets b i of
     None \<Rightarrow> None | Some k \<Rightarrow> if tk_receipt k = receipt then Some k else None)"

definition put_ticket :: "string \<Rightarrow> ticket option \<Rightarrow> board \<Rightarrow> board" where
  "put_ticket i k b = b\<lparr>bd_tickets := (bd_tickets b)(i := k)\<rparr>"

definition set_phase :: "string \<Rightarrow> phase \<Rightarrow> board \<Rightarrow> board" where
  "set_phase i ph b = put_ticket i (map_option (\<lambda>k. k\<lparr>tk_phase := ph\<rparr>) (bd_tickets b i)) b"

definition spec_start :: "string \<Rightarrow> string \<Rightarrow> json \<Rightarrow> u64 list \<Rightarrow> board \<Rightarrow> json \<times> board" where
  "spec_start dir kind params draws b =
     (if kind \<notin> set kinds then (err (''unknown job kind: '' @ kind), b)
      else if dir = [] then (err ''module context not ready (no wallets directory)'', b)
      else let i = ''j'' @ to_string (unat (bd_next b)); r = randomToken draws in
        (JObj [(''ok'', JBool True), (''jobId'', JStr i), (''receipt'', JStr r)],
         (put_ticket i (Some \<lparr>tk_receipt = r, tk_kind = kind,
            tk_params = (if is_object params then params else JObj []), tk_phase = PQueued\<rparr>) b)
           \<lparr>bd_queue := bd_queue b @ [i], bd_next := bd_next b + 1\<rparr>))"

definition spec_status :: "string \<Rightarrow> string \<Rightarrow> board \<Rightarrow> json" where
  "spec_status i receipt b = (case lookup_ticket b i receipt of
     None \<Rightarrow> err ''unknown job''
   | Some k \<Rightarrow> JObj [(''ok'', JBool True), (''state'', JStr (phase_name (tk_phase k))),
       (''progress'', JNull), (''error'', JStr (phase_error (tk_phase k)))])"

definition spec_result :: "string \<Rightarrow> string \<Rightarrow> board \<Rightarrow> json" where
  "spec_result i receipt b = (case lookup_ticket b i receipt of
     None \<Rightarrow> err ''unknown job''
   | Some k \<Rightarrow> (case tk_phase k of
       PDone r \<Rightarrow> ok_result r
     | PFailed e \<Rightarrow> err e
     | ph \<Rightarrow> err (''job not finished: '' @ phase_name ph)))"

definition spec_ack :: "string \<Rightarrow> string \<Rightarrow> board \<Rightarrow> bool \<times> board" where
  "spec_ack i receipt b = (case lookup_ticket b i receipt of
     Some k \<Rightarrow> if settled (tk_phase k) then (True, put_ticket i None b) else (False, b)
   | None \<Rightarrow> (False, b))"

definition spec_cancel :: "string \<Rightarrow> string \<Rightarrow> board \<Rightarrow> bool \<times> board" where
  "spec_cancel i receipt b = (case lookup_ticket b i receipt of
     Some k \<Rightarrow> if tk_phase k = PQueued
       then (True, (put_ticket i None b)\<lparr>bd_queue := removeAll i (bd_queue b)\<rparr>) else (False, b)
   | None \<Rightarrow> (False, b))"

section \<open>Sequences of calls\<close>

text \<open>
  The clients' calls, the worker's turns, the end of the worker's job (with the job's answer, an
  error or a result) and the shutdown. The worker has one job at a time.
\<close>

datatype tcall =
    CStart string string json "u64 list"
  | CStatus string string
  | CResult string string
  | CAck string string
  | CCancel string string
  | CTurn
  | CSettle "string + json"
  | CStop

datatype answer =
    AJson json
  | ABool bool
  | ATurn "(string \<times> string \<times> json) option"
  | ASettled string
  | ANone

definition answer_json :: "string + json \<Rightarrow> json" where
  "answer_json a = (case a of Inl e \<Rightarrow> err e | Inr r \<Rightarrow> ok_result r)"

fun exec :: "what \<Rightarrow> tcall \<Rightarrow> tickets \<times> ptr option \<Rightarrow> answer \<times> tickets \<times> ptr option" where
  "exec wh (CStart dir kind params draws) (t, r) =
     (let (a, t') = startJob dir kind params draws t in (AJson a, t', r))"
| "exec wh (CStatus i c) (t, r) = (AJson (jobStatus i c t), t, r)"
| "exec wh (CResult i c) (t, r) = (AJson (jobResult i c t), t, r)"
| "exec wh (CAck i c) (t, r) = (let (a, t') = ackJob i c t in (ABool a, t', r))"
| "exec wh (CCancel i c) (t, r) = (let (a, t') = cancelJob i c t in (ABool a, t', r))"
| "exec wh CTurn (t, None) = (case next_turn t of
       (RunJob p, t') \<Rightarrow> let j = heap t' p in (ATurn (Some (j_id j, j_kind j, j_params j)), t', Some p)
     | (_, t') \<Rightarrow> (ATurn None, t', None))"
| "exec wh (CSettle out) (t, Some p) = (case settle wh p (answer_json out) t of
       (Inr st, t') \<Rightarrow> (ASettled st, t', None)
     | (Inl _, t') \<Rightarrow> (ANone, t', None))"
| "exec wh CStop (t, r) = (let (a, t') = request_stop t in (ABool a, t', r))"
| "exec wh _ s = (ANone, s)"

fun spec_exec :: "tcall \<Rightarrow> board \<times> string option \<Rightarrow> answer \<times> board \<times> string option" where
  "spec_exec (CStart dir kind params draws) (b, r) =
     (let (a, b') = spec_start dir kind params draws b in (AJson a, b', r))"
| "spec_exec (CStatus i c) (b, r) = (AJson (spec_status i c b), b, r)"
| "spec_exec (CResult i c) (b, r) = (AJson (spec_result i c b), b, r)"
| "spec_exec (CAck i c) (b, r) = (let (a, b') = spec_ack i c b in (ABool a, b', r))"
| "spec_exec (CCancel i c) (b, r) = (let (a, b') = spec_cancel i c b in (ABool a, b', r))"
| "spec_exec CTurn (b, None) = (if bd_stop b then (ATurn None, b, None) else case bd_queue b of
       [] \<Rightarrow> (ATurn None, b, None)
     | i # q \<Rightarrow> (case bd_tickets b i of
           None \<Rightarrow> (ATurn None, b, None)
         | Some k \<Rightarrow> (ATurn (Some (i, tk_kind k, tk_params k)), set_phase i PRunning (b\<lparr>bd_queue := q\<rparr>), Some i)))"
| "spec_exec (CSettle out) (b, Some i) =
     (let ph = (case out of Inl e \<Rightarrow> PFailed e | Inr r \<Rightarrow> PDone r) in
      (ASettled (phase_name ph), set_phase i ph b, None))"
| "spec_exec CStop (b, r) = (if bd_stop b then (ABool False, b, r) else (ABool True, b\<lparr>bd_stop := True\<rparr>, r))"
| "spec_exec _ s = (ANone, s)"

fun is_start :: "tcall \<Rightarrow> bool" where
  "is_start (CStart dir kind params draws) = True"
| "is_start _ = False"

primrec execs :: "what \<Rightarrow> tcall list \<Rightarrow> tickets \<times> ptr option \<Rightarrow> answer list \<times> tickets \<times> ptr option" where
  "execs wh [] s = ([], s)"
| "execs wh (c # cs) s = (let (a, s') = exec wh c s; (as, s'') = execs wh cs s' in (a # as, s''))"

primrec spec_execs :: "tcall list \<Rightarrow> board \<times> string option \<Rightarrow> answer list \<times> board \<times> string option" where
  "spec_execs [] s = ([], s)"
| "spec_execs (c # cs) s = (let (a, s') = spec_exec c s; (as, s'') = spec_execs cs s' in (a # as, s''))"

section \<open>The invariant and the abstraction\<close>

definition job_wf :: "job \<Rightarrow> bool" where
  "job_wf j \<longleftrightarrow> j_state j \<in> {''queued'', ''running'', ''done'', ''failed''} \<and> j_progress j = JNull
     \<and> \<not> j_acked j \<and> (j_state j \<noteq> ''failed'' \<longrightarrow> j_error j = []) \<and> j_kind j \<in> set kinds"

text \<open>
  The table and its objects: the name in an object is its key, the queue holds exactly the queued
  jobs, once each, and only the worker's job is running.
\<close>

definition in_table :: "tickets \<Rightarrow> ptr \<Rightarrow> bool" where
  "in_table t p \<longleftrightarrow> m_jobs t (j_id (heap t p)) = Some p"

definition tickets_inv :: "tickets \<times> ptr option \<Rightarrow> bool" where
  "tickets_inv s \<longleftrightarrow> (case s of (t, r) \<Rightarrow>
     tn.wf t
     \<and> (\<forall>i p. m_jobs t i = Some p \<longrightarrow> p < heap_top t \<and> j_id (heap t p) = i \<and> job_wf (heap t p))
     \<and> distinct (m_queue t)
     \<and> (\<forall>p. p \<in> set (m_queue t) \<longleftrightarrow> in_table t p \<and> j_state (heap t p) = ''queued'')
     \<and> (\<forall>p. r = Some p \<longleftrightarrow> in_table t p \<and> j_state (heap t p) = ''running''))"

definition job_phase :: "job \<Rightarrow> phase" where
  "job_phase j = (if j_state j = ''queued'' then PQueued else if j_state j = ''running'' then PRunning
     else if j_state j = ''done'' then PDone (j_result j) else PFailed (j_error j))"

definition job_ticket :: "job \<Rightarrow> ticket" where
  "job_ticket j = \<lparr>tk_receipt = j_receipt j, tk_kind = j_kind j, tk_params = j_params j,
     tk_phase = job_phase j\<rparr>"

definition board_of :: "tickets \<Rightarrow> board" where
  "board_of t = \<lparr>bd_tickets = (\<lambda>i. map_option (\<lambda>p. job_ticket (heap t p)) (m_jobs t i)),
     bd_queue = map (\<lambda>p. j_id (heap t p)) (m_queue t), bd_next = m_nextId t, bd_stop = m_stop t\<rparr>"

definition board_state :: "tickets \<times> ptr option \<Rightarrow> board \<times> string option" where
  "board_state s = (case s of (t, r) \<Rightarrow> (board_of t, map_option (\<lambda>p. j_id (heap t p)) r))"

section \<open>The operations keep the invariant and follow the board\<close>

lemma tickets_inv_iff:
  "tickets_inv (t, r) \<longleftrightarrow> tn.wf t
     \<and> (\<forall>i p. m_jobs t i = Some p \<longrightarrow> p < heap_top t \<and> j_id (heap t p) = i \<and> job_wf (heap t p))
     \<and> distinct (m_queue t)
     \<and> (\<forall>p. p \<in> set (m_queue t) \<longleftrightarrow> in_table t p \<and> j_state (heap t p) = ''queued'')
     \<and> (\<forall>p. r = Some p \<longleftrightarrow> in_table t p \<and> j_state (heap t p) = ''running'')"
  by (simp add: tickets_inv_def)

lemma inv_job:
  assumes "tickets_inv (t, r)" "m_jobs t i = Some p"
  shows "p < heap_top t" "j_id (heap t p) = i" "job_wf (heap t p)"
  using assms by (auto simp: tickets_inv_iff)

lemma inv_in_table: "tickets_inv (t, r) \<Longrightarrow> m_jobs t i = Some p \<Longrightarrow> in_table t p"
  by (auto simp: in_table_def dest: inv_job)

lemma inv_queue: "tickets_inv (t, r) \<Longrightarrow> p \<in> set (m_queue t) \<longleftrightarrow> in_table t p \<and> j_state (heap t p) = ''queued''"
  by (simp add: tickets_inv_iff)

lemma inv_running: "tickets_inv (t, r) \<Longrightarrow> r = Some p \<longleftrightarrow> in_table t p \<and> j_state (heap t p) = ''running''"
  by (simp add: tickets_inv_iff)

lemma inv_distinct: "tickets_inv (t, r) \<Longrightarrow> distinct (m_queue t)"
  by (simp add: tickets_inv_iff)

lemma wf_in_table: "tickets_inv (t, r) \<Longrightarrow> in_table t p \<Longrightarrow> job_wf (heap t p)"
  by (auto simp: in_table_def dest: inv_job)

lemma job_wf_running: "job_wf j \<Longrightarrow> j_state j = ''queued'' \<Longrightarrow> job_wf (j\<lparr>j_state := ''running''\<rparr>)"
  by (simp add: job_wf_def)

lemma inv_inj: "tickets_inv (t, r) \<Longrightarrow> m_jobs t i = Some p \<Longrightarrow> m_jobs t i' = Some p \<Longrightarrow> i = i'"
  by (auto dest: inv_job)

lemma lookup_board:
  "lookup_ticket (board_of t) i c = map_option (\<lambda>p. job_ticket (heap t p)) (find_job t i c)"
  by (auto simp: lookup_ticket_def board_of_def find_job_def job_ticket_def split: option.splits)

lemma find_job_Some: "find_job t i c = Some p \<Longrightarrow> m_jobs t i = Some p \<and> j_receipt (heap t p) = c"
  by (auto simp: find_job_def split: option.splits if_splits)

text \<open>What the invariant makes of a job's state.\<close>

lemma job_phase_simps:
  assumes "job_wf j"
  shows "phase_name (job_phase j) = j_state j" "phase_error (job_phase j) = j_error j"
    "settled (job_phase j) \<longleftrightarrow> j_state j = ''done'' \<or> j_state j = ''failed''"
    "job_phase j = PQueued \<longleftrightarrow> j_state j = ''queued''"
  using assms by (auto simp: job_wf_def job_phase_def)

lemma status_sim: "tickets_inv (t, r) \<Longrightarrow> spec_status i c (board_of t) = jobStatus i c t"
  by (auto simp: spec_status_def jobStatus_def lookup_board job_ticket_def job_phase_simps job_wf_def
      dest!: find_job_Some inv_job(3) split: option.splits)

lemma result_sim: "tickets_inv (t, r) \<Longrightarrow> spec_result i c (board_of t) = jobResult i c t"
  by (auto simp: spec_result_def jobResult_def lookup_board job_ticket_def job_phase_def job_wf_def Let_def
      dest!: find_job_Some inv_job(3) split: option.splits phase.splits if_splits)

lemma board_erase: "board_of (erase_job i t) = put_ticket i None (board_of t)"
  by (auto simp: board_of_def erase_job_def put_ticket_def)

lemma in_table_erase: "tickets_inv (t, r) \<Longrightarrow> m_jobs t i = Some p \<Longrightarrow> in_table (erase_job i t) q \<longleftrightarrow> in_table t q \<and> q \<noteq> p"
  by (auto simp: in_table_def erase_job_def dest: inv_job)

lemma inv_erase:
  assumes "tickets_inv (t, r)" "m_jobs t i = Some p" "j_state (heap t p) = ''done'' \<or> j_state (heap t p) = ''failed''"
  shows "tickets_inv (erase_job i t, r)"
proof -
  have "tn.wf (erase_job i t)"
    using assms(1) by (simp add: tn.wf_del tickets_inv_iff)
  moreover have "p \<notin> set (m_queue t)" "r \<noteq> Some p"
    using assms(3) by (auto simp: inv_queue [OF assms(1)] inv_running [OF assms(1)])
  ultimately show ?thesis
    using assms(1) unfolding tickets_inv_iff in_table_erase [OF assms(1,2)]
    by (auto simp: erase_job_def)
qed

lemma ack_sim:
  assumes "tickets_inv (t, r)" "ackJob i c t = (a, t')"
  shows "spec_ack i c (board_of t) = (a, board_of t') \<and> tickets_inv (t', r) \<and> heap t' = heap t"
proof (cases "find_job t i c")
  case None
  with assms show ?thesis by (simp add: ackJob_def spec_ack_def lookup_board)
next
  case (Some p)
  note p = find_job_Some [OF Some, THEN conjunct1]
  show ?thesis
  proof (cases "j_state (heap t p) = ''done'' \<or> j_state (heap t p) = ''failed''")
    case True
    with assms Some have "a" "t' = erase_job i t" by (auto simp: ackJob_def)
    with True Some inv_erase [OF assms(1) p True] show ?thesis
      by (simp add: spec_ack_def lookup_board job_ticket_def board_erase
          job_phase_simps(3) [OF inv_job(3) [OF assms(1) p]]) (simp add: erase_job_def)
  next
    case False
    then have "\<not> settled (job_phase (heap t p))"
      by (simp add: job_phase_simps(3) [OF inv_job(3) [OF assms(1) p]])
    with assms Some False show ?thesis
      by (auto simp: ackJob_def spec_ack_def lookup_board job_ticket_def)
  qed
qed

lemma remove_first_unique:
  "distinct xs \<Longrightarrow> x \<in> set xs \<Longrightarrow> (\<And>y. y \<in> set xs \<Longrightarrow> P y \<longleftrightarrow> y = x) \<Longrightarrow> remove_first P xs = remove1 x xs"
  by (induction xs) auto

lemma map_remove1_unique:
  "distinct xs \<Longrightarrow> (\<And>y. y \<in> set xs \<Longrightarrow> f y = i \<longleftrightarrow> y = x) \<Longrightarrow> map f (remove1 x xs) = removeAll i (map f xs)"
proof (induction xs)
  case (Cons y ys)
  show ?case
  proof (cases "y = x")
    case True
    have "i \<notin> set (map f ys)" "f y = i" using Cons.prems True by auto
    with True show ?thesis by simp
  next
    case False
    with Cons show ?thesis by (metis (no_types, lifting) distinct.simps(2) list.set_intros(1,2) list.simps(9) remove1.simps(2) removeAll.simps(2))
  qed
qed simp

lemma cancel_sim:
  assumes "tickets_inv (t, r)" "cancelJob i c t = (a, t')"
  shows "spec_cancel i c (board_of t) = (a, board_of t') \<and> tickets_inv (t', r) \<and> heap t' = heap t"
proof (cases "find_job t i c")
  case None
  with assms show ?thesis by (simp add: cancelJob_def spec_cancel_def lookup_board)
next
  case (Some p)
  note p = find_job_Some [OF Some, THEN conjunct1]
  note phase = job_phase_simps(4) [OF inv_job(3) [OF assms(1) p]]
  show ?thesis
  proof (cases "j_state (heap t p) = ''queued''")
    case True
    have inq: "p \<in> set (m_queue t)"
      using True inv_in_table [OF assms(1) p] by (simp add: inv_queue [OF assms(1)])
    have id: "j_id (heap t q) = i \<longleftrightarrow> q = p" if "q \<in> set (m_queue t)" for q
    proof -
      have "m_jobs t (j_id (heap t q)) = Some q"
        using that by (simp add: inv_queue [OF assms(1)] in_table_def)
      with p inv_job(2) [OF assms(1) p] show ?thesis by (metis option.inject)
    qed
    have rest: "distinct (m_queue t)" using assms(1) by (simp add: tickets_inv_iff)
    let ?q = "remove1 p (m_queue t)"
    have rm: "remove_first (\<lambda>q. j_id (heap t q) = i) (m_queue t) = ?q"
      by (rule remove_first_unique [OF rest inq id])
    have t': "a" "t' = erase_job i (t\<lparr>m_queue := ?q\<rparr>)"
      using assms(2) True Some by (auto simp: cancelJob_def rm)
    have "map (\<lambda>p. j_id (heap t p)) ?q = removeAll i (map (\<lambda>p. j_id (heap t p)) (m_queue t))"
      by (rule map_remove1_unique [OF rest id])
    moreover have "tickets_inv (t', r)"
    proof -
      have "tn.wf t'" using assms(1) tn.wf_del [of t i]
        by (simp add: t' tickets_inv_iff tn.wf_def tn.issued_def erase_job_def)
      moreover have "r \<noteq> Some p"
        using True by (simp add: inv_running [OF assms(1)])
      moreover have "in_table t' q \<longleftrightarrow> in_table t q \<and> q \<noteq> p" for q
        using in_table_erase [OF assms(1) p] by (simp add: t' erase_job_def in_table_def)
      ultimately show ?thesis
        using assms(1) rest unfolding tickets_inv_iff t'
        by (auto simp: erase_job_def)
    qed
    ultimately show ?thesis
      using True Some phase t'
      by (auto simp: spec_cancel_def lookup_board job_ticket_def board_erase put_ticket_def)
        (simp_all add: board_of_def erase_job_def)
  next
    case False
    with assms Some phase show ?thesis
      by (auto simp: cancelJob_def spec_cancel_def lookup_board job_ticket_def)
  qed
qed

lemma in_table_update: "(\<And>j. j_id (f j) = j_id j) \<Longrightarrow> in_table (update_job p f t) q = in_table t q"
  by (simp add: in_table_def)

lemma wf_update [simp]:
  "tn.wf (t\<lparr>heap := h\<rparr>) = tn.wf t" "tn.wf (t\<lparr>m_queue := q\<rparr>) = tn.wf t" "tn.wf (t\<lparr>m_stop := b\<rparr>) = tn.wf t"
  "tn.wf (t\<lparr>heap_top := n\<rparr>) = tn.wf t"
  by (simp_all add: tn.wf_def tn.issued_def)

lemma board_update:
  assumes "tickets_inv (t, r)" "in_table t p" "\<And>j. j_id (f j) = j_id j"
    "\<And>j. job_ticket (f j) = (job_ticket j)\<lparr>tk_phase := job_phase (f j)\<rparr>"
  shows "board_of (update_job p f t) = set_phase (j_id (heap t p)) (job_phase (f (heap t p))) (board_of t)"
proof -
  note p = assms(2) [unfolded in_table_def]
  have other: "i \<noteq> j_id (heap t p) \<Longrightarrow> m_jobs t i \<noteq> Some p" for i
    using p inv_inj [OF assms(1)] by blast
  have "map_option (\<lambda>q. job_ticket (heap (update_job p f t) q)) (m_jobs t i) =
      bd_tickets (set_phase (j_id (heap t p)) (job_phase (f (heap t p))) (board_of t)) i" for i
  proof (cases "i = j_id (heap t p)")
    case True
    then show ?thesis by (simp add: set_phase_def put_ticket_def board_of_def p assms(4))
  next
    case False
    then show ?thesis
      using other [OF False] by (cases "m_jobs t i") (auto simp: set_phase_def put_ticket_def board_of_def)
  qed
  then have "bd_tickets (board_of (update_job p f t)) =
      bd_tickets (set_phase (j_id (heap t p)) (job_phase (f (heap t p))) (board_of t))"
    by (simp add: board_of_def fun_eq_iff)
  then show ?thesis
    by (simp add: board_of_def set_phase_def put_ticket_def assms(3))
qed

text \<open>One job of the table changes its state, and the queue and the worker with it.\<close>

lemma inv_change:
  assumes inv: "tickets_inv (t, r)" and f: "\<And>j. j_id (f j) = j_id j" "job_wf (f (heap t p))"
    and t': "heap t' = (heap t)(p := f (heap t p))" "m_jobs t' = m_jobs t" "heap_top t' = heap_top t"
      "m_nextId t' = m_nextId t"
    and q: "distinct (m_queue t')"
      "\<And>x. x \<in> set (m_queue t') \<longleftrightarrow> (if x = p then in_table t p \<and> j_state (f (heap t p)) = ''queued'' else x \<in> set (m_queue t))"
    and r: "\<And>x. r' = Some x \<longleftrightarrow> (if x = p then in_table t p \<and> j_state (f (heap t p)) = ''running'' else r = Some x)"
  shows "tickets_inv (t', r')"
proof -
  have tab: "in_table t' x = in_table t x" for x
    by (simp add: in_table_def t' f)
  have "tn.wf t'"
    using inv tn.wf_cong [of t' t] by (simp add: t' tickets_inv_iff)
  moreover have "x < heap_top t' \<and> j_id (heap t' x) = i \<and> job_wf (heap t' x)" if "m_jobs t' i = Some x" for i x
    using inv_job [OF inv, of i x] that f by (auto simp: t')
  moreover have "x \<in> set (m_queue t') \<longleftrightarrow> in_table t' x \<and> j_state (heap t' x) = ''queued''" for x
    using inv_queue [OF inv, of x] by (simp add: q tab t')
  moreover have "r' = Some x \<longleftrightarrow> in_table t' x \<and> j_state (heap t' x) = ''running''" for x
    using inv_running [OF inv, of x] by (simp add: r tab t')
  ultimately show ?thesis
    by (simp only: tickets_inv_iff q(1)) blast
qed

lemma turn_sim:
  assumes "tickets_inv (t, None)" "next_turn t = (RunJob p, t')"
  shows "\<not> bd_stop (board_of t) \<and> (\<exists>q. bd_queue (board_of t) = j_id (heap t' p) # q \<and>
      bd_tickets (board_of t) (j_id (heap t' p)) = Some (job_ticket (heap t p)) \<and>
      board_of t' = set_phase (j_id (heap t' p)) PRunning ((board_of t)\<lparr>bd_queue := q\<rparr>)) \<and>
    tickets_inv (t', Some p)"
proof -
  from assms(2) obtain q where q: "\<not> m_stop t" "m_queue t = p # q"
      "t' = update_job p (\<lambda>j. j\<lparr>j_state := ''running''\<rparr>) (t\<lparr>m_queue := q\<rparr>)"
    by (auto simp: next_turn_def split: if_splits list.splits)
  have p: "in_table t p" "j_state (heap t p) = ''queued''"
    using inv_queue [OF assms(1), of p] q(2) by auto
  have inv': "tickets_inv (t', Some p)"
    using assms(1) p job_wf_running [of "heap t p"] inv_distinct [OF assms(1)] wf_in_table [OF assms(1) p(1)]
    by (intro inv_change [where f = "\<lambda>j. j\<lparr>j_state := ''running''\<rparr>" and p = p, OF assms(1)]) (auto simp: q)
  have "board_of t' = set_phase (j_id (heap t p)) PRunning ((board_of t)\<lparr>bd_queue := map (\<lambda>p. j_id (heap t p)) q\<rparr>)"
  proof -
    let ?f = "\<lambda>j. j\<lparr>j_state := ''running''\<rparr>"
    have "board_of t' = (board_of (update_job p ?f t))\<lparr>bd_queue := map (\<lambda>p. j_id (heap t p)) q\<rparr>"
      by (simp add: q board_of_def)
    also have "board_of (update_job p ?f t) = set_phase (j_id (heap t p)) PRunning (board_of t)"
      using board_update [OF assms(1) p(1), of ?f] by (simp add: job_ticket_def job_phase_def)
    finally show ?thesis
      by (simp add: set_phase_def put_ticket_def)
  qed
  with p q inv' show ?thesis
    by (auto simp: board_of_def in_table_def)
qed

lemma turn_idle: 
  "next_turn t = (Tick, t') \<or> next_turn t = (Stop, t') \<Longrightarrow> t' = t \<and> (bd_stop (board_of t) \<or> bd_queue (board_of t) = [])"
  by (auto simp: next_turn_def board_of_def split: if_splits list.splits)

text \<open>The state and the object the end of a job leaves.\<close>

definition settled_job :: "string + json \<Rightarrow> job \<Rightarrow> job" where
  "settled_job out j = (case out of Inl e \<Rightarrow> j\<lparr>j_state := ''failed'', j_error := e\<rparr>
     | Inr r \<Rightarrow> j\<lparr>j_state := ''done'', j_result := r\<rparr>)"

lemma settled_job:
  "j_id (settled_job out j) = j_id j"
  "job_ticket (settled_job out j) = (job_ticket j)\<lparr>tk_phase := job_phase (settled_job out j)\<rparr>"
  "job_phase (settled_job out j) = (case out of Inl e \<Rightarrow> PFailed e | Inr r \<Rightarrow> PDone r)"
  "j_state (settled_job out j) = phase_name (case out of Inl e \<Rightarrow> PFailed e | Inr r \<Rightarrow> PDone r)"
  "j_state (settled_job out j) \<noteq> ''queued''" "j_state (settled_job out j) \<noteq> ''running''"
  "job_wf j \<Longrightarrow> j_state j = ''running'' \<Longrightarrow> job_wf (settled_job out j)"
  by (auto simp: settled_job_def job_phase_def job_ticket_def job_wf_def split: sum.splits)

lemma settle_answer:
  "settle wh p (answer_json out) t = (Inr (j_state (settled_job out (heap t p))), update_job p (settled_job out) t)"
  by (cases out) (simp_all add: settle_def answer_json_def err_def ok_result_def value_simps settled_job_def
      bindM_def thenM_def liftM_def modM_def getM_def)

lemma settle_sim:
  assumes "tickets_inv (t, Some p)" "settle wh p (answer_json out) t = (Inr st, t')"
  shows "st = phase_name (case out of Inl e \<Rightarrow> PFailed e | Inr r \<Rightarrow> PDone r) \<and>
    board_of t' = set_phase (j_id (heap t p)) (case out of Inl e \<Rightarrow> PFailed e | Inr r \<Rightarrow> PDone r) (board_of t) \<and>
    tickets_inv (t', None)"
proof -
  have p: "in_table t p" "j_state (heap t p) = ''running''"
    using inv_running [OF assms(1), of p] by auto
  have t': "t' = update_job p (settled_job out) t" "st = j_state (settled_job out (heap t p))"
    using assms(2) by (simp_all add: settle_answer)
  have "tickets_inv (t', None)"
    using settled_job(7) [OF wf_in_table [OF assms(1) p(1)] p(2)] inv_distinct [OF assms(1)] p
    by (intro inv_change [where f = "settled_job out" and p = p, OF assms(1)])
      (auto simp: t' settled_job(1,5,6,7) inv_queue [OF assms(1)])
  then show ?thesis
    using board_update [OF assms(1) p(1), of "settled_job out", OF settled_job(1,2)]
    by (simp add: t' settled_job(3,4))
qed

lemma startJob_accepted:
  assumes "kind \<in> set kinds" "dir \<noteq> []"
  shows "startJob dir kind params draws t =
    (let i = tn.name t; p = heap_top t; j = new_job\<lparr>j_kind := kind,
           j_params := (if is_object params then params else JObj []), j_receipt := randomToken draws, j_id := i\<rparr>
     in (JObj [(''ok'', JBool True), (''jobId'', JStr i), (''receipt'', JStr (randomToken draws))],
         t\<lparr>heap := (heap t)(p := j), heap_top := p + 1, m_nextId := m_nextId t + 1,
           m_jobs := (m_jobs t)(i \<mapsto> p), m_queue := m_queue t @ [p]\<rparr>))"
  using assms by (simp add: startJob_def make_job_def enqueue_def tn.name_def Let_def)

lemma start_refused:
  "kind \<notin> set kinds \<or> dir = [] \<Longrightarrow> snd (startJob dir kind params draws t) = t"
  by (auto simp: startJob_def)

lemma start_sim:
  assumes inv: "tickets_inv (t, r)" and n: "m_nextId t \<noteq> - 1" and st: "startJob dir kind params draws t = (a, t')"
  shows "spec_start dir kind params draws (board_of t) = (a, board_of t') \<and> tickets_inv (t', r) \<and>
    (\<forall>p. r = Some p \<longrightarrow> j_id (heap t' p) = j_id (heap t p))"
proof (cases "kind \<in> set kinds \<and> dir \<noteq> []")
  case False
  with assms show ?thesis by (auto simp: startJob_def spec_start_def)
next
  case True
  let ?p = "heap_top t" and ?i = "tn.name t"
  note t' = st [unfolded startJob_accepted [OF True [THEN conjunct1] True [THEN conjunct2]], simplified Let_def prod.inject,
      THEN conjunct2, symmetric]
  have other: "q \<noteq> ?p \<Longrightarrow> heap t' q = heap t q" for q
    by (simp add: t')
  have fields: "j_id (heap t' ?p) = ?i"
    "j_state (heap t' ?p) = ''queued''" "heap_top t' = ?p + 1" "m_nextId t' = m_nextId t + 1"
    "m_jobs t' = (m_jobs t)(?i \<mapsto> ?p)" "m_queue t' = m_queue t @ [?p]" "m_stop t' = m_stop t"
    "job_wf (heap t' ?p)" "job_ticket (heap t' ?p) = \<lparr>tk_receipt = randomToken draws, tk_kind = kind,
       tk_params = (if is_object params then params else JObj []), tk_phase = PQueued\<rparr>"
    using True by (simp_all add: t' new_job_def job_wf_def job_ticket_def job_phase_def)
  have old: "m_jobs t i = Some q \<Longrightarrow> q \<noteq> ?p \<and> i \<noteq> ?i" for i q
    using inv_job(1) [OF inv] tn.fresh [of t] inv by (auto simp: tickets_inv_iff)
  have wf: "tn.wf t'"
    using tn.wf_ins [of t ?p] inv n tn.wf_cong [of t' "enqueue ?p t"]
    by (simp add: tickets_inv_iff fields(4,5) enqueue_def Let_def tn.name_def)
  have tab: "in_table t' q \<longleftrightarrow> q = ?p \<or> in_table t q" for q
    using old other by (cases "q = ?p") (auto simp: in_table_def fields(1,5) split: if_splits)
  have notp: "\<not> in_table t ?p" using old by (auto simp: in_table_def)
  have "tickets_inv (t', r)"
    unfolding tickets_inv_iff
  proof (intro conjI allI impI)
    fix i q assume "m_jobs t' i = Some q"
    then have "q = ?p \<and> i = ?i \<or> m_jobs t i = Some q" by (auto simp: fields(5) split: if_splits)
    then show "q < heap_top t'" "j_id (heap t' q) = i" "job_wf (heap t' q)"
      using inv_job [OF inv, of i q] other [of q] by (auto simp: fields(1,3,8))
  next
    show "distinct (m_queue t')"
      using inv_distinct [OF inv] notp inv_queue [OF inv, of ?p] by (simp add: fields(6))
    fix q
    show "q \<in> set (m_queue t') \<longleftrightarrow> in_table t' q \<and> j_state (heap t' q) = ''queued''"
      using inv_queue [OF inv, of q] notp other by (cases "q = ?p") (auto simp: tab fields(2,6))
    show "r = Some q \<longleftrightarrow> in_table t' q \<and> j_state (heap t' q) = ''running''"
      using inv_running [OF inv, of q] notp other by (cases "q = ?p") (auto simp: tab fields(2))
  qed (rule wf)
  moreover have "board_of t' = (put_ticket ?i (Some (job_ticket (heap t' ?p))) (board_of t))
      \<lparr>bd_queue := bd_queue (board_of t) @ [?i], bd_next := bd_next (board_of t) + 1\<rparr>"
  proof -
    have "map_option (\<lambda>q. job_ticket (heap t' q)) (m_jobs t i) = map_option (\<lambda>q. job_ticket (heap t q)) (m_jobs t i)" for i
      using old [of i] other by (cases "m_jobs t i") auto
    moreover have "map (\<lambda>q. j_id (heap t' q)) (m_queue t) = map (\<lambda>q. j_id (heap t q)) (m_queue t)"
      by (intro map_cong refl) (metis other inv_queue [OF inv] notp)
    ultimately show ?thesis
      by (simp add: board_of_def put_ticket_def fields(1,4-7) fun_eq_iff)
  qed
  moreover have "r = Some q \<longrightarrow> j_id (heap t' q) = j_id (heap t q)" for q
    using inv_running [OF inv, of q] other [of q] notp by metis
  ultimately show ?thesis
    using True st by (simp add: startJob_accepted spec_start_def tn.name_def fields(9) Let_def)
      (simp add: board_of_def put_ticket_def)
qed

text \<open>One call: the answers agree, and the tickets stay where the board is.\<close>

lemma exec_sim:
  assumes "tickets_inv s" "is_start c \<Longrightarrow> m_nextId (fst s) \<noteq> - 1" "exec wh c s = (a, s')"
  shows "spec_exec c (board_state s) = (a, board_state s') \<and> tickets_inv s'"
proof -
  obtain t r where s: "s = (t, r)" by (cases s)
  note inv = assms(1) [unfolded s]
  have bs: "board_state (u, r') = (board_of u, map_option (\<lambda>p. j_id (heap u p)) r')" for u r'
    by (simp add: board_state_def)
  show ?thesis
  proof (cases c)
    case (CStart dir kind params draws)
    then show ?thesis
      using assms(2,3) start_sim [OF inv] by (cases r) (auto simp: s bs split: prod.splits)
  next
    case (CAck i c)
    then show ?thesis
      using assms(3) ack_sim [OF inv] by (auto simp: s bs split: prod.splits)
  next
    case (CCancel i c)
    then show ?thesis
      using assms(3) cancel_sim [OF inv] by (auto simp: s bs split: prod.splits)
  next
    case CTurn
    show ?thesis
    proof (cases r)
      case None
      obtain u t' where n: "next_turn t = (u, t')" by (cases "next_turn t")
      show ?thesis
      proof (cases u)
        case (RunJob p)
        have "job_ticket (heap t' p) = (job_ticket (heap t p))\<lparr>tk_phase := PRunning\<rparr>"
          using n RunJob by (auto simp: next_turn_def job_ticket_def job_phase_def split: if_splits list.splits)
        then have "j_kind (heap t' p) = tk_kind (job_ticket (heap t p))" "j_params (heap t' p) = tk_params (job_ticket (heap t p))"
          by (simp_all add: job_ticket_def)
        then show ?thesis
          using turn_sim [OF inv [unfolded None]] n CTurn None RunJob assms(3) by (auto simp: s bs Let_def)
      qed (use n CTurn None assms turn_idle [of t t'] in \<open>auto simp: s bs split: list.splits\<close>)
    qed (use CTurn assms in \<open>auto simp: s bs\<close>)
  next
    case (CSettle out)
    show ?thesis
    proof (cases r)
      case (Some p)
      then show ?thesis
        using CSettle assms(3) settle_sim [OF inv [unfolded Some] settle_answer]
        by (auto simp: s bs settle_answer Let_def)
    qed (use CSettle assms in \<open>auto simp: s bs\<close>)
  next
    case CStop
    then show ?thesis
      using assms inv by (auto simp: s bs request_stop_def board_of_def tickets_inv_iff in_table_def)
  qed (use assms status_sim [OF inv] result_sim [OF inv] in \<open>auto simp: s bs\<close>)
qed

section \<open>Whole runs\<close>

definition starts :: "tcall list \<Rightarrow> nat" where
  "starts cs = length (filter is_start cs)"

lemma starts_Cons [simp]: "starts [] = 0" "starts (c # cs) = (if is_start c then Suc (starts cs) else starts cs)"
  by (simp_all add: starts_def)

text \<open>The names issued by a run, in order, and the jobs the worker took, in order.\<close>

fun started_by :: "tcall \<times> answer \<Rightarrow> string list" where
  "started_by (CStart dir kind params draws, AJson (JObj [(k1, ok), (k2, JStr i), (k3, c)])) = [i]"
| "started_by _ = []"

fun run_by :: "answer \<Rightarrow> string list" where
  "run_by (ATurn (Some (i, k, p))) = [i]"
| "run_by _ = []"

definition started :: "tcall list \<Rightarrow> answer list \<Rightarrow> string list" where
  "started cs as = concat (map started_by (zip cs as))"

definition runs :: "answer list \<Rightarrow> string list" where
  "runs as = concat (map run_by as)"

lemma started_simps [simp]: "started [] as = []" "started (c # cs) (a # as) = started_by (c, a) @ started cs as"
  by (simp_all add: started_def)

lemma runs_simps [simp]: "runs [] = []" "runs (a # as) = run_by a @ runs as"
  by (simp_all add: runs_def)

lemma init_inv: "tickets_inv (init_tickets, None)"
  by (simp add: tickets_inv_iff init_tickets_def tn.wf_def in_table_def)

lemma init_board_state: "board_state (init_tickets, None) = (init_board, None)"
  by (simp add: board_state_def board_of_def init_tickets_def init_board_def)

lemma spec_next: "spec_exec c (b, r) = (a, b', r') \<Longrightarrow>
    bd_next b' = bd_next b \<or> is_start c \<and> bd_next b' = bd_next b + 1"
  by (induction c "(b, r)" rule: spec_exec.induct)
    (auto simp: spec_start_def spec_ack_def spec_cancel_def put_ticket_def set_phase_def Let_def
      split: if_splits option.splits list.splits)

lemma spec_next_unat:
  assumes "spec_exec c (b, r) = (a, b', r')" "is_start c \<Longrightarrow> bd_next b \<noteq> - 1"
  shows "unat (bd_next b') \<le> unat (bd_next b) + (if is_start c then 1 else 0)" "unat (bd_next b) \<le> unat (bd_next b')"
proof -
  have "bd_next b \<noteq> - 1 \<Longrightarrow> unat (bd_next b + 1) = Suc (unat (bd_next b))"
    by (metis add.commute unatSuc add_eq_0_iff minus_equation_iff)
  with spec_next [OF assms(1)] assms(2)
  show "unat (bd_next b') \<le> unat (bd_next b) + (if is_start c then 1 else 0)" "unat (bd_next b) \<le> unat (bd_next b')"
    by auto
qed

lemma max_u64: "x = (- 1 :: u64) \<longleftrightarrow> unat x = 2 ^ 64 - 1"
  by (simp add: word_unat_eq_iff unsigned_minus_1_eq_mask mask_eq_exp_minus_1)

lemma execs_sim:
  assumes "tickets_inv s" "unat (m_nextId (fst s)) + starts cs < 2 ^ 64" "execs wh cs s = (as, s')"
  shows "spec_execs cs (board_state s) = (as, board_state s') \<and> tickets_inv s'"
  using assms
proof (induction cs arbitrary: s as)
  case (Cons c cs)
  obtain a s1 where 1: "exec wh c s = (a, s1)" by (cases "exec wh c s")
  obtain as1 where 2: "execs wh cs s1 = (as1, s')" "as = a # as1"
    using Cons.prems(3) 1 by (auto split: prod.splits)
  have ne: "is_start c \<Longrightarrow> m_nextId (fst s) \<noteq> - 1"
    using Cons.prems(2) by (auto simp: max_u64)
  note sim = exec_sim [OF Cons.prems(1) ne 1]
  have nx: "bd_next (fst (board_state u)) = m_nextId (fst u)" for u
    by (cases u) (simp add: board_state_def board_of_def)
  have "unat (m_nextId (fst s1)) + starts cs < 2 ^ 64"
    using spec_next_unat(1) [of c "fst (board_state s)" "snd (board_state s)" a "fst (board_state s1)" "snd (board_state s1)"]
      sim ne Cons.prems(2) by (auto simp: nx split: if_splits)
  with Cons.IH [of s1 as1] sim 2 show ?case by simp
qed simp

section \<open>What the board gives\<close>

text \<open>First come first served: the queue and the jobs taken are what was started, in that order.\<close>

lemma spec_order:
  assumes "spec_exec c (b, r) = (a, b', r')"
  shows "subseq (run_by a @ bd_queue b') (bd_queue b @ started_by (c, a))"
proof (cases "(c, (b, r))" rule: spec_exec.cases)
  case (1 dir kind params draws b r)
  then show ?thesis
    using assms by (auto simp: spec_start_def put_ticket_def err_def Let_def split: if_splits)
next
  case (5 i c b r)
  have "subseq (removeAll i xs) xs" for xs :: "string list"
    by (simp add: removeAll_filter_not_eq)
  with 5 show ?thesis
    using assms by (auto simp: spec_cancel_def put_ticket_def split: option.splits if_splits)
qed (use assms in \<open>auto simp: spec_ack_def put_ticket_def set_phase_def Let_def split: option.splits if_splits list.splits\<close>)

lemma spec_execs_order:
  "spec_execs cs (b, r) = (as, b', r') \<Longrightarrow> subseq (runs as @ bd_queue b') (bd_queue b @ started cs as)"
proof (induction cs arbitrary: b r as)
  case (Cons c cs)
  obtain a b1 r1 where 1: "spec_exec c (b, r) = (a, b1, r1)" by (metis prod_cases3)
  obtain as1 where 2: "spec_execs cs (b1, r1) = (as1, b', r')" "as = a # as1"
    using Cons.prems 1 by (auto split: prod.splits)
  have "subseq (run_by a @ (runs as1 @ bd_queue b')) (run_by a @ (bd_queue b1 @ started cs as1))"
    by (rule list_emb_append_mono [OF subseq_order.order_refl Cons.IH [OF 2(1)]])
  also have "subseq \<dots> (bd_queue b @ started_by (c, a) @ started cs as1)"
    using list_emb_append_mono [OF spec_order [OF 1] subseq_order.order_refl] by simp
  finally show ?case using 2(2) by simp
qed simp

text \<open>No name is issued twice.\<close>

lemma spec_started:
  assumes "spec_exec c (b, r) = (a, b', r')"
  shows "started_by (c, a) = [] \<or>
    is_start c \<and> started_by (c, a) = [''j'' @ to_string (unat (bd_next b))] \<and> bd_next b' = bd_next b + 1"
  using assms
  by (cases "(c, (b, r))" rule: spec_exec.cases)
    (auto simp: spec_start_def put_ticket_def err_def Let_def split: if_splits)

lemma spec_execs_distinct:
  assumes "spec_execs cs (b, r) = (as, b', r')" "unat (bd_next b) + starts cs < 2 ^ 64"
  shows "distinct (started cs as) \<and> (\<forall>i\<in>set (started cs as). \<exists>n\<ge>unat (bd_next b). i = ''j'' @ to_string n)"
  using assms
proof (induction cs arbitrary: b r as)
  case (Cons c cs)
  obtain a b1 r1 where 1: "spec_exec c (b, r) = (a, b1, r1)" by (metis prod_cases3)
  obtain as1 where 2: "spec_execs cs (b1, r1) = (as1, b', r')" "as = a # as1"
    using Cons.prems(1) 1 by (auto split: prod.splits)
  have ne: "is_start c \<Longrightarrow> bd_next b \<noteq> - 1"
    using Cons.prems(2) by (auto simp: max_u64)
  note nx = spec_next_unat [OF 1 ne]
  have IH: "distinct (started cs as1)" "\<forall>i\<in>set (started cs as1). \<exists>n\<ge>unat (bd_next b1). i = ''j'' @ to_string n"
    using Cons.IH [OF 2(1)] nx(1) Cons.prems(2) by (auto split: if_splits)
  have later: "\<exists>n\<ge>unat (bd_next b). i = ''j'' @ to_string n" if "i \<in> set (started cs as1)" for i
    using IH(2) that nx(2) by (meson order.trans)
  have "started_by (c, a) = [] \<or> (started_by (c, a) = [''j'' @ to_string (unat (bd_next b))] \<and>
      ''j'' @ to_string (unat (bd_next b)) \<notin> set (started cs as1))"
  proof (cases "started_by (c, a) = []")
    case False
    then have s: "is_start c" "started_by (c, a) = [''j'' @ to_string (unat (bd_next b))]" "bd_next b1 = bd_next b + 1"
      using spec_started [OF 1] by auto
    have "unat (bd_next b1) = Suc (unat (bd_next b))"
      using ne [OF s(1)] unfolding s(3) by (metis add.commute unatSuc add_eq_0_iff minus_equation_iff)
    with IH(2) have "''j'' @ to_string (unat (bd_next b)) \<notin> set (started cs as1)"
      by (auto simp: to_string_inj)
    with s show ?thesis by simp
  qed simp
  with IH(1) later show ?case by (auto simp: 2(2))
qed simp

text \<open>The worker alone empties the queue: a turn and an end for each ticket.\<close>

definition board_wf :: "board \<Rightarrow> bool" where
  "board_wf b \<longleftrightarrow> distinct (bd_queue b) \<and> set (bd_queue b) \<subseteq> dom (bd_tickets b)"

definition serve :: "(string + json) list \<Rightarrow> tcall list" where
  "serve outs = concat (map (\<lambda>out. [CTurn, CSettle out]) outs)"

lemma spec_drain:
  assumes "board_wf b" "\<not> bd_stop b" "length outs = length (bd_queue b)"
    "spec_execs (serve outs) (b, None) = (as, b', r')"
  shows "runs as = bd_queue b \<and> bd_queue b' = [] \<and> r' = None \<and>
    (\<forall>i\<in>set (bd_queue b). \<exists>k. bd_tickets b' i = Some k \<and> settled (tk_phase k))
    \<and> (\<forall>i. i \<notin> set (bd_queue b) \<longrightarrow> bd_tickets b' i = bd_tickets b i)"
  using assms
proof (induction outs arbitrary: b as)
  case Nil
  then show ?case by (simp add: serve_def)
next
  case (Cons out outs)
  obtain i q where q: "bd_queue b = i # q" using Cons.prems(3) by (cases "bd_queue b") auto
  obtain k where k: "bd_tickets b i = Some k" using Cons.prems(1) q by (auto simp: board_wf_def)
  define ph where "ph = (case out of Inl e \<Rightarrow> PFailed e | Inr r \<Rightarrow> PDone r)"
  define b1 where "b1 = set_phase i ph (set_phase i PRunning (b\<lparr>bd_queue := q\<rparr>))"
  have b1: "board_wf b1" "\<not> bd_stop b1" "bd_queue b1 = q" "bd_tickets b1 = (bd_tickets b)(i \<mapsto> k\<lparr>tk_phase := ph\<rparr>)" "i \<notin> set q"
    using Cons.prems(1,2) q k by (auto simp: b1_def set_phase_def put_ticket_def board_wf_def)
  have ex: "spec_execs (serve (out # outs)) (b, None) =
      (let (as, s) = spec_execs (serve outs) (b1, None) in (ATurn (Some (i, tk_kind k, tk_params k)) # ASettled (phase_name ph) # as, s))"
    using Cons.prems(2) q k by (simp add: serve_def Let_def ph_def [symmetric] b1_def split: prod.splits)
  obtain as1 where as1: "spec_execs (serve outs) (b1, None) = (as1, b', r')"
    "as = ATurn (Some (i, tk_kind k, tk_params k)) # ASettled (phase_name ph) # as1"
    using Cons.prems(4) unfolding ex by (auto split: prod.splits)
  have "settled ph" by (auto simp: ph_def split: sum.splits)
  with Cons.IH [OF b1(1,2) _ as1(1)] Cons.prems(3) show ?case
    by (auto simp: as1(2) q b1)
qed

lemma board_wf_inv: "tickets_inv (t, r) \<Longrightarrow> board_wf (board_of t)"
  by (auto simp: board_wf_def board_of_def distinct_map inv_distinct inj_on_def inv_queue in_table_def) 

section \<open>The tickets keep the promises\<close>

lemma execs_init:
  assumes "starts cs < 2 ^ 64 - 1" "execs wh cs (init_tickets, None) = (as, s)"
  shows "spec_execs cs (init_board, None) = (as, board_state s) \<and> tickets_inv s"
  using execs_sim [OF init_inv _ assms(2)] assms(1) by (simp add: init_board_state) (simp add: init_tickets_def)

definition sample_calls :: "tcall list" where
  "sample_calls = [CStart ''/w'' ''rescan'' JNull (replicate 32 10), CStart ''/w'' ''close_wallet'' JNull [],
     CTurn, CAck ''j1'' (randomToken (replicate 32 10)), CSettle (Inr JNull), CAck ''j1'' (randomToken (replicate 32 10)), CTurn]"

text \<open>C6. The tickets refine the board: whatever the sequence of calls, turns of the worker and
  shutdown, with fewer than \<open>2 ^ 64 - 1\<close> jobs started, every answer is the board's, and the table, the
  queue, the job objects and the worker's job stay consistent.\<close>

theorem tickets_refine_board:
  assumes "starts cs < 2 ^ 64 - 1" "execs wh cs (init_tickets, None) = (as, s)"
  shows "fst (spec_execs cs (init_board, None)) = as \<and> tickets_inv s
    \<and> snd (spec_execs cs (init_board, None)) = board_state s"
  using execs_init [OF assms] by simp

lemma tickets_refine_board_witness:
  "fst (spec_execs sample_calls (init_board, None)) = fst (execs (\<lambda>_ _. []) sample_calls (init_tickets, None))"
proof -
  have "starts sample_calls < 2 ^ 64 - 1" by (simp add: sample_calls_def)
  from tickets_refine_board [OF this] show ?thesis by (metis prod.collapse)
qed

text \<open>C5. No job runs twice, and jobs run in the order they were started: the jobs the worker takes in any
  run are a subsequence of the jobs started, whose names are all different.\<close>

theorem jobs_run_once_in_order:
  assumes "starts cs < 2 ^ 64 - 1" "execs wh cs (init_tickets, None) = (as, s)"
  shows "subseq (runs as) (started cs as) \<and> distinct (started cs as) \<and> distinct (runs as)"
proof -
  obtain b' r' where ex: "spec_execs cs (init_board, None) = (as, b', r')"
    using execs_init [OF assms] by (metis prod.collapse)
  have "subseq (runs as @ bd_queue b') (started cs as)"
    using spec_execs_order [OF ex] by (simp add: init_board_def)
  then have sub: "subseq (runs as) (started cs as)"
    by (rule subseq_order.order_trans [OF prefix_imp_subseq, rotated]) simp
  moreover have "distinct (started cs as)"
    using spec_execs_distinct [OF ex] assms(1) by (simp add: init_board_def)
  ultimately show ?thesis by (metis subseq_conv_nths distinct_nthsI)
qed

lemma jobs_run_once_in_order_witness:
  "distinct (runs (fst (execs (\<lambda>_ _. []) sample_calls (init_tickets, None))))"
proof -
  have "starts sample_calls < 2 ^ 64 - 1" by (simp add: sample_calls_def)
  from jobs_run_once_in_order [OF this] show ?thesis by (metis prod.collapse)
qed

text \<open>Progress: where no shutdown was asked for and the worker is free, as many turns as there are queued
  jobs, each ended with any answer, run exactly the queued jobs in order, leave the queue empty and every one of them
  settled, and touch no other job.\<close>

theorem worker_empties_queue:
  assumes "starts cs < 2 ^ 64 - 1" "execs wh cs (init_tickets, None) = (as, (t, None))"
    and "\<not> m_stop t" "length outs = length (m_queue t)"
    and "execs wh (serve outs) (t, None) = (as', t', r')"
  shows "runs as' = map (\<lambda>p. j_id (heap t p)) (m_queue t) \<and> m_queue t' = [] \<and> r' = None
    \<and> (\<forall>p\<in>set (m_queue t). \<exists>p'. m_jobs t' (j_id (heap t p)) = Some p' \<and> j_state (heap t' p') \<in> {''done'', ''failed''})"
proof -
  have inv: "tickets_inv (t, None)" using execs_init [OF assms(1,2)] by simp
  have "starts (serve outs) = 0" by (induction outs) (simp_all add: serve_def)
  then have sim: "spec_execs (serve outs) (board_of t, None) = (as', board_state (t', r'))" "tickets_inv (t', r')"
    using execs_sim [OF inv _ assms(5)] unsigned_less [of "m_nextId t"] by (auto simp: board_state_def)
  have "length outs = length (bd_queue (board_of t))" "\<not> bd_stop (board_of t)"
    using assms(3,4) by (simp_all add: board_of_def)
  note drain = spec_drain [OF board_wf_inv [OF inv] this(2,1) sim(1) [unfolded board_state_def prod.case]]
  have "\<exists>p'. m_jobs t' i = Some p' \<and> j_state (heap t' p') \<in> {''done'', ''failed''}"
    if i: "i \<in> set (bd_queue (board_of t))" for i
  proof -
    obtain k where "bd_tickets (board_of t') i = Some k" "settled (tk_phase k)"
      using drain i by blast
    then obtain p' where "m_jobs t' i = Some p'" "settled (job_phase (heap t' p'))"
      by (auto simp: board_of_def job_ticket_def)
    with job_phase_simps(3) [OF inv_job(3) [OF sim(2)]] show ?thesis by auto
  qed
  with drain show ?thesis by (auto simp: board_of_def)
qed

definition two_starts :: "tcall list" where
  "two_starts = [CStart ''/w'' ''rescan'' JNull (replicate 32 10), CStart ''/w'' ''close_wallet'' JNull []]"

definition two_queued :: tickets where
  "two_queued = fst (snd (execs (\<lambda>_ _. []) two_starts (init_tickets, None)))"

lemma two_queued: "execs (\<lambda>_ _. []) two_starts (init_tickets, None) =
    (fst (execs (\<lambda>_ _. []) two_starts (init_tickets, None)), two_queued, None)"
  "\<not> m_stop two_queued" "m_queue two_queued = [0, 1]"
  by (simp_all add: two_queued_def two_starts_def startJob_accepted kinds_def init_tickets_def Let_def)

lemma worker_empties_queue_witness:
  "runs (fst (execs (\<lambda>_ _. []) (serve [Inl ''x'', Inr JNull]) (two_queued, None))) = map (\<lambda>p. j_id (heap two_queued p)) [0, 1]"
proof -
  have "starts two_starts < 2 ^ 64 - 1" by (simp add: two_starts_def)
  from worker_empties_queue [OF this two_queued(1,2)] show ?thesis
    by (metis (no_types, lifting) two_queued(3) length_Cons list.size(3) prod.collapse)
qed

text \<open>A job can be forgotten only once it has finished, and only with its receipt; acknowledging
  removes that entry and nothing else.\<close>

theorem ackJob_only_finished:
  "ackJob i c t = (if \<exists>p. m_jobs t i = Some p \<and> j_receipt (heap t p) = c \<and> j_state (heap t p) \<in> {''done'', ''failed''}
     then (True, t\<lparr>m_jobs := (m_jobs t)(i := None)\<rparr>) else (False, t))"
  by (auto simp: ackJob_def find_job_def erase_job_def split: option.splits)

text \<open>A job name authorises nothing: with any receipt but the job's own, the answers are those for a job
  that does not exist, and nothing changes.\<close>

theorem name_authorises_nothing:
  assumes "\<forall>p. m_jobs t i = Some p \<longrightarrow> j_receipt (heap t p) \<noteq> c"
  shows "jobStatus i c t = err ''unknown job'' \<and> jobResult i c t = err ''unknown job''
    \<and> ackJob i c t = (False, t) \<and> cancelJob i c t = (False, t)"
proof -
  have "find_job t i c = None" using assms by (auto simp: find_job_def split: option.splits)
  then show ?thesis by (simp add: jobStatus_def jobResult_def ackJob_def cancelJob_def)
qed

lemma name_authorises_nothing_witness:
  "m_jobs two_queued ''j1'' = Some 0 \<and> cancelJob ''j1'' ''guess'' two_queued = (False, two_queued)"
proof -
  have one: "to_string (Suc 0) = ''1''" "to_string 2 = ''2''" by code_simp+
  have "m_jobs two_queued ''j1'' = Some 0" "j_receipt (heap two_queued 0) = randomToken (replicate 32 10)"
    by (simp_all add: two_queued_def two_starts_def startJob_accepted kinds_def init_tickets_def Let_def
        tn.name_def one new_job_def)
  moreover have "randomToken (replicate 32 10) \<noteq> ''guess''"
    using length_randomToken [of "replicate 32 10"] by (auto dest: arg_cong [where f = length])
  ultimately have "m_jobs two_queued ''j1'' = Some 0" "\<forall>p. m_jobs two_queued ''j1'' = Some p \<longrightarrow> j_receipt (heap two_queued p) \<noteq> ''guess''"
    by simp_all
  with name_authorises_nothing [OF this(2)] show ?thesis by simp
qed

text \<open>Only a queued job can be cancelled: a running one is left to the worker, in its state, its
  place and with its objects as they were.\<close>

theorem running_job_untouched:
  assumes "tickets_inv (t, Some p)" "c' \<in> {CAck i c, CCancel i c}"
  shows "let (a, t', r') = exec wh c' (t, Some p) in
    r' = Some p \<and> heap t' p = heap t p \<and> m_jobs t' (j_id (heap t p)) = Some p \<and> p \<notin> set (m_queue t')"
proof -
  have p: "m_jobs t (j_id (heap t p)) = Some p" "j_state (heap t p) = ''running''"
    using inv_running [OF assms(1), of p] by (auto simp: in_table_def)
  obtain a t' where e: "exec wh c' (t, Some p) = (a, t', Some p)"
    using assms(2) by (cases "ackJob i c t"; cases "cancelJob i c t") auto
  have "tickets_inv (t', Some p) \<and> heap t' = heap t"
    using e assms(2) ack_sim [OF assms(1)] cancel_sim [OF assms(1)] by (auto split: prod.splits)
  then show ?thesis
    using inv_running [of t' "Some p" p] inv_queue [of t' "Some p" p] p by (auto simp: e in_table_def)
qed

lemma running_job_untouched_witness:
  "let (a, t', r') = exec (\<lambda>_ _. []) (CCancel ''j1'' (randomToken (replicate 32 10))) (snd (next_turn two_queued), Some 0) in
    r' = Some 0 \<and> 0 \<notin> set (m_queue t')"
proof -
  have "next_turn two_queued = (RunJob 0, snd (next_turn two_queued))"
    by (simp add: next_turn_def two_queued)
  then have "tickets_inv (snd (next_turn two_queued), Some 0)"
    using turn_sim execs_init [OF _ two_queued(1)] by (auto simp: two_starts_def)
  from running_job_untouched [OF this, of "CCancel ''j1'' (randomToken (replicate 32 10))" "''j1''" _ "\<lambda>_ _. []"]
  show ?thesis by (auto split: prod.splits)
qed

end
