(* ===== verification/Sockets.thy ===== *)
theory Sockets
  imports Text
begin

text \<open>
  \<^verbatim>\<open>samePeer\<close> and \<^verbatim>\<open>socketsTo\<close> of \<^verbatim>\<open>src/wallet_runtime.cpp\<close>: which of this process's descriptors
  are connected to a host and port. The operating system's answers (name resolution, each
  descriptor's peer, the descriptor limit) are a record of parameters.
\<close>

datatype sockaddr =
    Inet "16 word" "32 word"
  | Inet6 "16 word" "128 word"
  | OtherFamily nat

record os =
  os_getaddrinfo :: "string \<Rightarrow> string \<Rightarrow> sockaddr list option"
  os_getpeername :: "nat \<Rightarrow> sockaddr option"
  os_open_max :: int

fun samePeer :: "sockaddr \<Rightarrow> sockaddr \<Rightarrow> bool" where
  "samePeer (Inet p a) (Inet q b) = (p = q \<and> a = b)"
| "samePeer (Inet6 p a) (Inet6 q b) = (p = q \<and> a = b)"
| "samePeer _ _ = False"

text \<open>\<^verbatim>\<open>rfind\<close> of a character.\<close>

fun rfind_char :: "char \<Rightarrow> string \<Rightarrow> nat option" where
  "rfind_char c [] = None"
| "rfind_char c (x # s) = (case rfind_char c s of Some i \<Rightarrow> Some (Suc i) | None \<Rightarrow> if x = c then Some 0 else None)"

definition unbracket :: "string \<Rightarrow> string" where
  "unbracket host = (if length host > 1 \<and> hd host = CHR ''['' \<and> last host = CHR '']''
     then butlast (tl host) else host)"

text \<open>The matching descriptors, in the order the loop visits them; the code returns their number.\<close>

definition socketsTo_fds :: "os \<Rightarrow> string \<Rightarrow> nat list" where
  "socketsTo_fds E hostport =
     (case rfind_char CHR '':'' hostport of
        None \<Rightarrow> []
      | Some colon \<Rightarrow>
          (case os_getaddrinfo E (c_str (unbracket (take colon hostport))) (c_str (drop (colon + 1) hostport)) of
             None \<Rightarrow> []
           | Some found \<Rightarrow>
               filter (\<lambda>fd. case os_getpeername E fd of
                   None \<Rightarrow> False
                 | Some peer \<Rightarrow> \<exists>a\<in>set found. samePeer peer a)
                 [0..<nat (min (os_open_max E) 4096)]))"

lemma samePeer_iff: "samePeer a b \<longleftrightarrow> a = b \<and> (\<forall>k. a \<noteq> OtherFamily k)"
  by (cases "(a, b)" rule: samePeer.cases) auto

lemma rfind_char_Some: "rfind_char c s = Some i \<Longrightarrow> i < length s \<and> s ! i = c \<and> c \<notin> set (drop (Suc i) s)"
proof (induction s arbitrary: i)
  case (Cons x s)
  have "rfind_char c t = None \<longleftrightarrow> c \<notin> set t" for t
    by (induction t) (auto split: option.splits)
  with Cons show ?case by (auto split: option.splits if_splits)
qed simp

lemma rfind_char_append: "c \<notin> set t \<Longrightarrow> rfind_char c (s @ c # t) = Some (length s)"
proof (induction s)
  case Nil
  have "c \<notin> set t \<Longrightarrow> rfind_char c t = None" for t
    by (induction t) auto
  with Nil show ?case by simp
qed simp

lemma socketsTo_fds_iff:
  assumes "CHR '':'' \<notin> set port" "CHR 0x00 \<notin> set host" "CHR 0x00 \<notin> set port" "length host \<le> 1 \<or> hd host \<noteq> CHR ''[''"
  shows "fd \<in> set (socketsTo_fds E (host @ '':'' @ port)) \<longleftrightarrow>
    int fd < os_open_max E \<and> fd < 4096 \<and>
    (\<exists>found peer. os_getaddrinfo E host port = Some found \<and> os_getpeername E fd = Some peer \<and>
       peer \<in> set found \<and> (\<forall>k. peer \<noteq> OtherFamily k))"
proof -
  have "rfind_char CHR '':'' (host @ '':'' @ port) = Some (length host)"
    using rfind_char_append [OF assms(1)] by simp
  moreover have "unbracket host = host" using assms(4) by (auto simp: unbracket_def)
  ultimately show ?thesis
    using assms(2, 3)
    by (cases "os_getaddrinfo E host port")
      (auto simp: socketsTo_fds_def c_str_id samePeer_iff split: option.splits)
qed

lemma socketsTo_fds_bounded: "fd \<in> set (socketsTo_fds E hp) \<Longrightarrow> fd < 4096 \<and> int fd < os_open_max E"
  by (auto simp: socketsTo_fds_def split: option.splits)

section \<open>The sockets of a node\<close>


definition two_sockets :: os where
  "two_sockets = \<lparr>os_getaddrinfo = (\<lambda>h p. if h = ''n'' \<and> p = ''1'' then Some [Inet 1 7] else None),
     os_getpeername = (\<lambda>fd. if fd = 3 then Some (Inet 1 7) else if fd = 4 then Some (Inet 2 7) else None),
     os_open_max = 1024\<rparr>"


end
