(* ===== verification/Engine.thy ===== *)
theory Engine
  imports Json Sockets
begin

text \<open>
  What the runtime does to the world around it, and what the world answers. Every call into
  monero_c (\<^verbatim>\<open>lib/monero_wallet2_api_c.h\<close>, the part \<^verbatim>\<open>src/wallet_runtime.cpp\<close> uses), into the node
  module, the host, the clock and the file system is an event; the state keeps the events in
  a history, newest first. The answers are a record of functions of the history and the
  event: a world that may answer anything, differently each time, and may throw from any
  call. Handles are numbers, 0 is the null pointer.
\<close>

type_synonym handle = nat

text \<open>A returned \<^verbatim>\<open>const char*\<close>: null, or the characters it points to.\<close>

type_synonym cstr = "string option"

datatype mutex = HandleMu | StateMu

datatype lock_mode = Shared | Exclusive

text \<open>The wallet manager's calls, \<^verbatim>\<open>MONERO_WalletManager_*\<close>.\<close>

datatype wm_call =
    WM_setDaemonAddress string
  | WM_walletExists string
  | WM_openWallet string string int
  | WM_createWallet string string string int
  | WM_recoveryWallet string string string int u64 u64 string
  | WM_createWalletFromKeys string string string int u64 string string string u64
  | WM_errorString
  | WM_closeWallet handle bool
  | WM_verifyWalletPassword string string bool u64

text \<open>\<^verbatim>\<open>MONERO_Wallet_*\<close>: the calls that change the wallet or what its threads do.\<close>

datatype wallet_call =
    W_setRefreshFromBlockHeight u64
  | W_init string u64 string string bool bool string
  | W_setOffline bool
  | W_setTrustedDaemon bool
  | W_setAutoRefreshInterval int
  | W_startRefresh
  | W_pauseRefresh
  | W_stop
  | W_refresh
  | W_refreshAsync
  | W_rescanBlockchainAsync
  | W_store string
  | W_setPassword string
  | W_addSubaddress u32 string
  | W_setSubaddressLabel u32 u32 string
  | W_createTransaction string string u64 u32 int u32 string string

text \<open>\<^verbatim>\<open>MONERO_Wallet_*\<close>: the calls that read.\<close>

datatype wallet_read =
    W_status
  | W_errorString
  | W_nettype
  | W_connected
  | W_address u64 u64
  | W_watchOnly
  | W_synchronized
  | W_blockChainHeight
  | W_daemonBlockChainHeight
  | W_balance u32
  | W_unlockedBalance u32
  | W_numSubaddresses u32
  | W_getSubaddressLabel u32 u32
  | W_seed string
  | W_secretViewKey
  | W_history

text \<open>\<^verbatim>\<open>MONERO_PendingTransaction_*\<close>, \<^verbatim>\<open>MONERO_TransactionHistory_*\<close> and \<^verbatim>\<open>MONERO_TransactionInfo_*\<close>.\<close>

datatype pt_call =
    PT_status
  | PT_errorString
  | PT_amount
  | PT_fee
  | PT_dust
  | PT_txCount
  | PT_txid string
  | PT_commit string bool

datatype th_call =
    TH_refresh
  | TH_count
  | TH_transaction int

datatype ti_read =
    TI_transfers_count
  | TI_transfers_address int
  | TI_transfers_amount int
  | TI_hash
  | TI_direction
  | TI_amount
  | TI_fee
  | TI_blockHeight
  | TI_confirmations
  | TI_timestamp
  | TI_isPending
  | TI_isFailed
  | TI_isCoinbase
  | TI_unlockTime
  | TI_paymentId
  | TI_description
  | TI_subaddrIndex string
  | TI_subaddrAccount

datatype event =
    Lock mutex lock_mode
  | TryLockShared mutex
  | Unlock mutex
  | Emit string json
  | Resolve string
  | NotifyOpen string bool
  | NotifyProbe
  | ClockNow
  | SleepMs nat
  | SocketsTo string bool
  | ShutdownFd nat
  | FsExists string
  | FsPermissions string
  | FsCreateDirectories string
  | MONERO_free string
  | WM wm_call
  | Wallet handle wallet_call
  | WalletRead handle wallet_read
  | PendingTx handle pt_call
  | TxHistory handle th_call
  | TxInfo handle ti_read

type_synonym trace = "event list"

record world =
  w_throw :: "trace \<Rightarrow> event \<Rightarrow> exn option"
  w_bool :: "trace \<Rightarrow> event \<Rightarrow> bool"
  w_int :: "trace \<Rightarrow> event \<Rightarrow> int"
  w_u64 :: "trace \<Rightarrow> event \<Rightarrow> u64"
  w_handle :: "trace \<Rightarrow> event \<Rightarrow> handle"
  w_str :: "trace \<Rightarrow> event \<Rightarrow> cstr"
  w_json :: "trace \<Rightarrow> event \<Rightarrow> json"
  w_os :: "trace \<Rightarrow> os"
  w_what :: what
  w_has_notify :: bool
  w_version :: string

section \<open>The runtime's state\<close>

datatype state = NoWallet | Opening | Syncing | Ready | Closing | Failed

fun stateName :: "state \<Rightarrow> string" where
  "stateName NoWallet = ''no_wallet''"
| "stateName Opening = ''opening''"
| "stateName Syncing = ''syncing''"
| "stateName Ready = ''ready''"
| "stateName Closing = ''closing''"
| "stateName Failed = ''failed''"

datatype route = Direct | CatchUp | WaitingForTor | Tor

fun routeName :: "route \<Rightarrow> string" where
  "routeName Direct = ''direct''"
| "routeName CatchUp = ''catch_up''"
| "routeName WaitingForTor = ''waiting_for_tor''"
| "routeName Tor = ''tor''"

text \<open>
  The fields of \<^verbatim>\<open>WalletRuntime\<close> the worker and the readers share (the job table is a component
  of its own), with the history of the calls made.
\<close>

record rt =
  m_walletsDir :: string
  m_locksReset :: bool
  m_wallet :: handle
  m_pendingTx :: "string \<rightharpoonup> handle"
  m_nextTx :: u64
  m_state :: state
  m_walletName :: string
  m_network :: string
  m_primaryAddress :: string
  m_lastError :: string
  m_nettype :: int
  m_lastSynced :: bool
  m_route :: route
  m_probed :: bool
  m_daemonConnected :: bool
  m_dialPeer :: string
  m_daemonHeight :: u64
  m_progressHeight :: u64
  m_progressAt :: int
  m_torUrl :: string
  m_torAskedAt :: int
  m_torUse :: string
  hist :: trace

definition init_rt :: rt where
  "init_rt = \<lparr>m_walletsDir = [], m_locksReset = False, m_wallet = 0, m_pendingTx = Map.empty,
     m_nextTx = 1, m_state = NoWallet, m_walletName = [], m_network = [], m_primaryAddress = [],
     m_lastError = [], m_nettype = 0, m_lastSynced = False, m_route = Direct, m_probed = False,
     m_daemonConnected = False, m_dialPeer = [], m_daemonHeight = 0, m_progressHeight = 0,
     m_progressAt = 0, m_torUrl = [], m_torAskedAt = 0, m_torUse = [], hist = []\<rparr>"

type_synonym 'a run = "(rt, 'a) prog"

section \<open>Calls\<close>

text \<open>An event that cannot throw, and a call, which may.\<close>

definition logM :: "event \<Rightarrow> unit run" where
  "logM ev = modM (\<lambda>s. s\<lparr>hist := ev # hist s\<rparr>)"

definition call :: "world \<Rightarrow> (trace \<Rightarrow> event \<Rightarrow> 'a) \<Rightarrow> event \<Rightarrow> 'a run" where
  "call W ans ev = (\<lambda>s. let tr = hist s; t = s\<lparr>hist := ev # tr\<rparr> in
     case w_throw W tr ev of Some e \<Rightarrow> (Inl e, t) | None \<Rightarrow> (Inr (ans tr ev), t))"

definition callU :: "world \<Rightarrow> event \<Rightarrow> unit run" where
  "callU W = call W (\<lambda>_ _. ())"

text \<open>\<^verbatim>\<open>std::chrono::steady_clock::now()\<close>, in nanoseconds.\<close>

definition nowM :: "world \<Rightarrow> int run" where
  "nowM W = bindM (getM (\<lambda>s. w_int W (hist s) ClockNow)) (\<lambda>t. thenM (logM ClockNow) (retM t))"

text \<open>A scoped lock: released on every way out.\<close>

definition with_lock :: "mutex \<Rightarrow> lock_mode \<Rightarrow> 'a run \<Rightarrow> 'a run" where
  "with_lock mu mode body = thenM (logM (Lock mu mode)) (finallyM body (logM (Unlock mu)))"

text \<open>
  A timed shared lock of the handle (\<^verbatim>\<open>kReadWait\<close>): \<open>busy\<close> where it was not had in time.
\<close>

definition try_shared :: "world \<Rightarrow> 'a run \<Rightarrow> 'a run \<Rightarrow> 'a run" where
  "try_shared W busy body =
     bindM (getM (\<lambda>s. w_bool W (hist s) (TryLockShared HandleMu))) (\<lambda>got.
       if got then with_lock HandleMu Shared body else thenM (logM (TryLockShared HandleMu)) busy)"

abbreviation with_state :: "'a run \<Rightarrow> 'a run" where
  "with_state \<equiv> with_lock StateMu Exclusive"

subsection \<open>Returned strings\<close>

text \<open>\<^verbatim>\<open>take\<close>: copy, then release what is not null.\<close>

definition takeM :: "world \<Rightarrow> cstr \<Rightarrow> string run" where
  "takeM W p = (case p of
     None \<Rightarrow> retM []
   | Some c \<Rightarrow> thenM (callU W (MONERO_free (c_str c))) (retM (c_str c)))"

text \<open>\<^verbatim>\<open>takeJoined\<close>: release only what is neither null nor empty.\<close>

definition takeJoined :: "world \<Rightarrow> cstr \<Rightarrow> string run" where
  "takeJoined W p = (case p of
     None \<Rightarrow> retM []
   | Some c \<Rightarrow> thenM (whenM (c_str c \<noteq> []) (callU W (MONERO_free (c_str c)))) (retM (c_str c)))"

abbreviation take_call :: "world \<Rightarrow> event \<Rightarrow> string run" where
  "take_call W ev \<equiv> bindM (call W (w_str W) ev) (takeM W)"

abbreviation joined_call :: "world \<Rightarrow> event \<Rightarrow> string run" where
  "joined_call W ev \<equiv> bindM (call W (w_str W) ev) (takeJoined W)"

text \<open>\<^verbatim>\<open>socketsTo\<close>: the number of descriptors connected to the peer, shut down when \<open>drp\<close>.\<close>

definition socketsTo :: "world \<Rightarrow> string \<Rightarrow> bool \<Rightarrow> nat run" where
  "socketsTo W hostport drp =
     bindM (getM (\<lambda>s. socketsTo_fds (w_os W (hist s)) hostport)) (\<lambda>fds.
       thenM (logM (SocketsTo hostport drp))
         (thenM (forM fds (\<lambda>fd. whenM drp (logM (ShutdownFd fd)))) (retM (length fds))))"

section \<open>Rules\<close>

lemma wp_log [wp]: "wp (logM ev) Q s = Q (Inr ()) (s\<lparr>hist := ev # hist s\<rparr>)"
  by (simp add: logM_def wp_mod)

lemma wp_call [wp]:
  "wp (call W ans ev) Q s = (case w_throw W (hist s) ev of
     Some e \<Rightarrow> Q (Inl e) (s\<lparr>hist := ev # hist s\<rparr>)
   | None \<Rightarrow> Q (Inr (ans (hist s) ev)) (s\<lparr>hist := ev # hist s\<rparr>))"
  by (simp add: wp_def call_def Let_def split: option.splits)

lemma wp_callU [wp]:
  "wp (callU W ev) Q s = (case w_throw W (hist s) ev of
     Some e \<Rightarrow> Q (Inl e) (s\<lparr>hist := ev # hist s\<rparr>)
   | None \<Rightarrow> Q (Inr ()) (s\<lparr>hist := ev # hist s\<rparr>))"
  by (simp add: callU_def wp_call)

lemma wp_now [wp]: "wp (nowM W) Q s = Q (Inr (w_int W (hist s) ClockNow)) (s\<lparr>hist := ClockNow # hist s\<rparr>)"
  by (simp add: nowM_def wp)

text \<open>A condition that survives any event survives every call.\<close>

lemma keeps_log: "(\<And>s. I s \<Longrightarrow> I (s\<lparr>hist := ev # hist s\<rparr>)) \<Longrightarrow> keeps I (logM ev)"
  by (rule keepsI) (simp add: wp)

lemma keeps_call: "(\<And>s. I s \<Longrightarrow> I (s\<lparr>hist := ev # hist s\<rparr>)) \<Longrightarrow> keeps I (call W ans ev)"
  by (rule keepsI) (simp add: wp split: option.splits)

lemma keeps_callU: "(\<And>s. I s \<Longrightarrow> I (s\<lparr>hist := ev # hist s\<rparr>)) \<Longrightarrow> keeps I (callU W ev)"
  unfolding callU_def by (rule keeps_call)

lemma keeps_now: "(\<And>s. I s \<Longrightarrow> I (s\<lparr>hist := ClockNow # hist s\<rparr>)) \<Longrightarrow> keeps I (nowM W)"
  by (rule keepsI) (simp add: wp)

lemma triple_call:
  "(\<And>s. P s \<Longrightarrow> E (s\<lparr>hist := ev # hist s\<rparr>)) \<Longrightarrow> (\<And>s. P s \<Longrightarrow> Q (ans (hist s) ev) (s\<lparr>hist := ev # hist s\<rparr>))
   \<Longrightarrow> triple P (call W ans ev) Q E"
  by (rule tripleI) (simp add: wp split: option.splits)

lemma triple_callU:
  "(\<And>s. P s \<Longrightarrow> E (s\<lparr>hist := ev # hist s\<rparr>)) \<Longrightarrow> (\<And>s. P s \<Longrightarrow> Q () (s\<lparr>hist := ev # hist s\<rparr>))
   \<Longrightarrow> triple P (callU W ev) Q E"
  by (rule tripleI) (simp add: wp split: option.splits)

lemma triple_log: "(\<And>s. P s \<Longrightarrow> Q () (s\<lparr>hist := ev # hist s\<rparr>)) \<Longrightarrow> triple P (logM ev) Q E"
  by (rule tripleI) (simp add: wp)

lemma triple_now: "(\<And>s t. P s \<Longrightarrow> Q t (s\<lparr>hist := ClockNow # hist s\<rparr>)) \<Longrightarrow> triple P (nowM W) Q E"
  by (rule tripleI) (simp add: wp)

section \<open>What a program adds to the history\<close>

text \<open>The history grows by events each allowed, given what came before it.\<close>

inductive grows :: "(trace \<Rightarrow> event \<Rightarrow> bool) \<Rightarrow> trace \<Rightarrow> trace \<Rightarrow> bool" for E h where
  start: "grows E h h"
| event: "grows E h tr \<Longrightarrow> E tr ev \<Longrightarrow> grows E h (ev # tr)"

inductive_cases grows_ConsE: "grows E h (ev # tr)"

lemma grows_new: "grows E h tr \<Longrightarrow> \<exists>evs. tr = evs @ h"
proof (induction rule: grows.induct)
  case start
  show ?case by (rule exI [of _ "[]"]) simp
next
  case (event tr ev)
  then obtain evs where "tr = evs @ h" by blast
  then show ?case by (intro exI [of _ "ev # evs"]) simp
qed

lemma grows_allowed: "grows E h (evs @ ev # tr) \<Longrightarrow> length h \<le> length tr \<Longrightarrow> E tr ev"
proof (induction evs)
  case Nil
  then show ?case by (auto elim: grows_ConsE)
next
  case (Cons e evs)
  from Cons.prems(1) have "grows E h (evs @ ev # tr)"
    unfolding append_Cons by (rule grows_ConsE) (use Cons.prems(2) in auto)
  with Cons show ?case by simp
qed

lemma grows_mono: "grows E h tr \<Longrightarrow> (\<And>tr ev. E tr ev \<Longrightarrow> F tr ev) \<Longrightarrow> grows F h tr"
  by (induction rule: grows.induct) (auto intro: grows.intros)

section \<open>Evaluation\<close>

lemma run_events [runs]:
  "logM ev t = (Inr (), t\<lparr>hist := ev # hist t\<rparr>)"
  "call W ans ev t = (case w_throw W (hist t) ev of Some e \<Rightarrow> (Inl e, t\<lparr>hist := ev # hist t\<rparr>)
      | None \<Rightarrow> (Inr (ans (hist t) ev), t\<lparr>hist := ev # hist t\<rparr>))"
  "callU W ev t = (case w_throw W (hist t) ev of Some e \<Rightarrow> (Inl e, t\<lparr>hist := ev # hist t\<rparr>)
      | None \<Rightarrow> (Inr (), t\<lparr>hist := ev # hist t\<rparr>))"
  by (simp_all add: logM_def modM_def callU_def call_def Let_def)

declare with_lock_def [runs] takeM_def [runs] takeJoined_def [runs]

section \<open>A sample world\<close>

text \<open>A world in which every call succeeds and answers nothing.\<close>

definition quiet_world :: world where
  "quiet_world = \<lparr>w_throw = (\<lambda>_ _. None), w_bool = (\<lambda>_ _. True), w_int = (\<lambda>_ _. 0), w_u64 = (\<lambda>_ _. 0),
     w_handle = (\<lambda>_ _. 1), w_str = (\<lambda>_ _. Some []), w_json = (\<lambda>_ _. JNull),
     w_os = (\<lambda>_. \<lparr>os_getaddrinfo = (\<lambda>_ _. None), os_getpeername = (\<lambda>_. None), os_open_max = 0\<rparr>),
     w_what = (\<lambda>_ _. []), w_has_notify = True, w_version = []\<rparr>"

text \<open>One in which every call succeeds and no wallet is view-only.\<close>

definition spending_world :: world where
  "spending_world = quiet_world\<lparr>w_bool := (\<lambda>_ ev. case ev of WalletRead w W_watchOnly \<Rightarrow> False | _ \<Rightarrow> True)\<rparr>"

lemma spending_world_simps:
  "w_throw spending_world tr ev = None" "w_bool spending_world tr (WalletRead w W_watchOnly) = False"
  "w_handle spending_world tr ev = 1" "w_int spending_world tr ev = 0" "w_u64 spending_world tr ev = 0"
  "w_str spending_world tr ev = Some []"
  by (simp_all add: spending_world_def quiet_world_def)

end
