(* ===== verification/Base58.thy ===== *)
theory Base58
  imports Prelude Radix
begin

text \<open>
  Monero's base58, as \<^verbatim>\<open>src/address_check.cpp\<close> decodes it: blocks of up to 11 characters, each
  a number in base 58 written to up to 8 bytes; and the varint that opens an address.
\<close>

section \<open>The decoder\<close>

definition ALPHABET :: string where
  "ALPHABET = ''123456789ABCDEFGHJKLMNPQRSTUVWXYZabcdefghijkmnopqrstuvwxyz''"

definition ENC_SIZES :: "nat list" where
  "ENC_SIZES = [0, 2, 3, 5, 6, 7, 9, 10, 11]"

text \<open>
  \<^verbatim>\<open>strchr\<close>: the first position of a character in a C string, its terminator included.
\<close>

fun strchr :: "string \<Rightarrow> char \<Rightarrow> nat option" where
  "strchr [] c = (if c = CHR 0x00 then Some 0 else None)"
| "strchr (x # xs) c = (if x = c then Some 0 else map_option Suc (strchr xs c))"

text \<open>\<^verbatim>\<open>for (i = 0; i < 9; ++i) if (ENC_SIZES[i] == n) size = i\<close>: the last match wins, -1 if none.\<close>

definition enc_size :: "nat \<Rightarrow> int" where
  "enc_size n = fold (\<lambda>i size. if ENC_SIZES ! i = n then int i else size) [0..<9] (-1)"

text \<open>The digits of a block as one 128-bit number, \<open>None\<close> at a character outside the alphabet.\<close>

fun block_value :: "u128 \<Rightarrow> string \<Rightarrow> u128 option" where
  "block_value v [] = Some v"
| "block_value v (c # cs) =
     (case strchr ALPHABET c of
        None \<Rightarrow> None
      | Some p \<Rightarrow> if c = CHR 0x00 then None else block_value (v * 58 + word_of_nat p) cs)"

text \<open>
  The result is the bytes appended to \<^verbatim>\<open>out\<close>, \<open>None\<close> when the code returns false (what it
  has appended to \<^verbatim>\<open>out\<close> by then is never read).
\<close>

definition decodeBlock :: "string \<Rightarrow> u8 list option" where
  "decodeBlock s =
     (let size = enc_size (length s) in
      if size \<le> 0 then None
      else case block_value 0 s of
        None \<Rightarrow> None
      | Some v \<Rightarrow>
          if size < 8 \<and> v \<ge> push_bit (8 * nat size) 1 then None
          else Some (map (\<lambda>i. ucast (drop_bit (8 * i) v)) (rev [0..<nat size])))"

function base58_loop :: "string \<Rightarrow> nat \<Rightarrow> u8 list \<Rightarrow> u8 list option" where
  "base58_loop s i out =
     (if i < length s then
        (case decodeBlock (take (min 11 (length s - i)) (drop i s)) of
           None \<Rightarrow> None
         | Some bs \<Rightarrow> base58_loop s (i + 11) (out @ bs))
      else Some out)"
  by pat_completeness auto
termination
  by (relation "measure (\<lambda>(s, i, out). length s - i)") auto

declare base58_loop.simps [simp del]

definition base58Decode :: "string \<Rightarrow> u8 list option" where
  "base58Decode s = base58_loop s 0 []"

text \<open>
  \<^verbatim>\<open>readVarint\<close>: seven bits a byte, least significant first, the high bit set on every byte
  but the last; at most ten bytes (\<^verbatim>\<open>shift < 64\<close>). The value and the number of bytes read.
\<close>

function varint_loop :: "u8 list \<Rightarrow> u64 \<Rightarrow> nat \<Rightarrow> nat \<Rightarrow> (u64 \<times> nat) option" where
  "varint_loop b v n shift =
     (if n < length b \<and> shift < 64 then
        (let v' = v OR push_bit shift (ucast (b ! n AND 0x7f)) in
         if b ! n AND 0x80 = 0 then Some (v', n + 1)
         else varint_loop b v' (n + 1) (shift + 7))
      else None)"
  by pat_completeness auto
termination
  by (relation "measure (\<lambda>(b, v, n, shift). length b - n)") auto

declare varint_loop.simps [simp del]

definition readVarint :: "u8 list \<Rightarrow> (u64 \<times> nat) option" where
  "readVarint b = varint_loop b 0 0 0"

section \<open>The reference encoder\<close>

text \<open>Base58 as numbers: the index of a character, and the blocks of 8 bytes as big-endian numbers.\<close>

definition alphabet_index :: "char \<Rightarrow> nat option" where
  "alphabet_index c = (if c = CHR 0x00 then None else strchr ALPHABET c)"

definition block_digits :: "string \<Rightarrow> nat list option" where
  "block_digits s = those (map alphabet_index s)"

definition bytes_value :: "u8 list \<Rightarrow> nat" where
  "bytes_value bs = from_digits 256 (map unat bs)"

definition encode_block :: "u8 list \<Rightarrow> string" where
  "encode_block bs = map ((!) ALPHABET) (to_digits 58 (ENC_SIZES ! length bs) (bytes_value bs))"

definition base58Encode :: "u8 list \<Rightarrow> string" where
  "base58Encode bs = concat (map encode_block (chunks 8 bs))"

interpretation b58: radix "length ALPHABET"
  by unfold_locales (simp add: ALPHABET_def)

interpretation byte: radix 256
  by unfold_locales simp

lemma length_ALPHABET [simp]: "length ALPHABET = 58"
  by (simp add: ALPHABET_def)

lemma distinct_ALPHABET: "distinct ALPHABET"
  by (simp add: ALPHABET_def)

lemma NUL_notin_ALPHABET: "CHR 0x00 \<notin> set ALPHABET"
  by (simp add: ALPHABET_def)

lemma strchr_Some: "strchr xs c = Some p \<Longrightarrow> c \<noteq> CHR 0x00 \<Longrightarrow> p < length xs \<and> xs ! p = c"
  by (induction xs arbitrary: p) (auto split: if_splits)

lemma strchr_nth: "distinct xs \<Longrightarrow> p < length xs \<Longrightarrow> strchr xs (xs ! p) = Some p"
proof (induction xs arbitrary: p)
  case (Cons x xs)
  then show ?case by (cases p) auto
qed simp

lemma alphabet_index_nth:
  assumes "p < 58"
  shows "alphabet_index (ALPHABET ! p) = Some p"
proof -
  have "ALPHABET ! p \<in> set ALPHABET" using assms by (simp add: nth_mem)
  then have "ALPHABET ! p \<noteq> CHR 0x00" using NUL_notin_ALPHABET by metis
  then show ?thesis using strchr_nth [OF distinct_ALPHABET, of p] assms by (simp add: alphabet_index_def)
qed

lemma alphabet_index_Some: "alphabet_index c = Some p \<Longrightarrow> p < 58 \<and> ALPHABET ! p = c"
  using strchr_Some [of ALPHABET c p] by (auto simp: alphabet_index_def split: if_splits)

lemma block_digits_map: "(\<forall>d\<in>set ds. d < 58) \<Longrightarrow> block_digits (map ((!) ALPHABET) ds) = Some ds"
  by (induction ds) (auto simp: block_digits_def alphabet_index_nth)

lemma block_digits_Some:
  "block_digits s = Some ds \<Longrightarrow> (\<forall>d\<in>set ds. d < 58) \<and> s = map ((!) ALPHABET) ds"
proof (induction s arbitrary: ds)
  case (Cons c s)
  then show ?case by (auto simp: block_digits_def dest!: alphabet_index_Some split: option.splits)
qed (simp add: block_digits_def)

lemma block_value_digits:
  "block_value v s = map_option (foldl (\<lambda>v d. v * 58 + word_of_nat d) v) (block_digits s)"
proof (induction s arbitrary: v)
  case (Cons c s)
  then show ?case
    by (auto simp: block_digits_def alphabet_index_def option.map_comp comp_def split: option.splits)
qed (simp add: block_digits_def)

lemma foldl_word_of_nat:
  "foldl (\<lambda>v d. v * 58 + word_of_nat d) (word_of_nat n) ds =
    (word_of_nat (foldl (\<lambda>v d. v * 58 + d) n ds) :: u128)"
proof (induction ds arbitrary: n)
  case (Cons d ds)
  from Cons [of "n * 58 + d"] show ?case by simp
qed simp

lemma block_value_spec:
  "block_value 0 s = map_option (\<lambda>ds. word_of_nat (from_digits 58 ds)) (block_digits s)"
proof -
  have "foldl (\<lambda>v d. v * 58 + word_of_nat d) 0 = (\<lambda>ds. word_of_nat (from_digits 58 ds) :: u128)"
    using foldl_word_of_nat [of 0, unfolded semiring_1_class.of_nat_0] unfolding from_digits_def by (intro ext)
  then show ?thesis by (simp only: block_value_digits)
qed

lemma enc_size_cases:
  assumes "0 < enc_size n"
  obtains k where "enc_size n = int k" "1 \<le> k" "k \<le> 8" "n = ENC_SIZES ! k" "n \<le> 11"
  using assms
  by (auto simp: enc_size_def ENC_SIZES_def upt_rec split: if_splits)

lemma enc_size_ENC_SIZES: "k \<le> 8 \<Longrightarrow> enc_size (ENC_SIZES ! k) = int k"
  by (auto simp: enc_size_def ENC_SIZES_def upt_rec le_Suc_eq numeral_eq_Suc)


lemmas b58_facts =
  b58.from_to_digits [unfolded length_ALPHABET] b58.to_digits_less [unfolded length_ALPHABET]
  b58.from_digits_less [unfolded length_ALPHABET] b58.to_from_digits [unfolded length_ALPHABET]

lemma ENC_SIZES_fit: "k \<le> 8 \<Longrightarrow> 256 ^ k \<le> (58 :: nat) ^ (ENC_SIZES ! k)"
proof -
  assume "k \<le> 8"
  moreover have "\<forall>k\<in>{0, 1, 2, 3, 4, 5, 6, 7, 8}. 256 ^ k \<le> (58 :: nat) ^ (ENC_SIZES ! k)"
    by (simp add: ENC_SIZES_def)
  moreover have "k \<in> {0, 1, 2, 3, 4, 5, 6, 7, 8}" using \<open>k \<le> 8\<close> by auto
  ultimately show ?thesis by (rule_tac bspec)
qed

lemma unat_u8_less: "unat (b :: u8) < 256"
  using unsigned_less [of b] by simp

lemma map_unat_bytes:
  "map unat (map (\<lambda>i. ucast (drop_bit (8 * i) (v :: u128)) :: u8) (rev [0..<k])) = to_digits 256 k (unat v)"
proof -
  have "unat (ucast (drop_bit (8 * i) v) :: u8) = unat v div 256 ^ i mod 256" for i
    by (simp add: unsigned_ucast_eq unat_drop_bit_eq drop_bit_eq_div [of _ "unat v"] power_mult take_bit_eq_mod)
  then show ?thesis by (simp add: to_digits_rev comp_def)
qed

lemma map_word_of_unat: "map (word_of_nat \<circ> unat) bs = (bs :: u8 list)"
  by (simp add: comp_def)

lemma bytes_value_less: "bytes_value bs < 256 ^ length bs"
  using byte.from_digits_less [of "map unat bs"] by (simp add: bytes_value_def unat_u8_less)

lemma bytes_value_inj:
  assumes "length bs = length cs" "bytes_value bs = bytes_value cs"
  shows "bs = cs"
proof -
  have "map unat bs = map unat cs"
    using assms by (intro byte.from_digits_inj) (auto simp: bytes_value_def unat_u8_less)
  then have "map word_of_nat (map unat bs) = (map word_of_nat (map unat cs) :: u8 list)" by simp
  then show ?thesis by (simp add: comp_def)
qed

lemma bytes_value_bytes:
  "bytes_value (map (\<lambda>i. ucast (drop_bit (8 * i) (v :: u128))) (rev [0..<k])) = unat v mod 256 ^ k"
  unfolding bytes_value_def map_unat_bytes by (rule byte.from_to_digits)

lemma length_block_digits: "block_digits s = Some ds \<Longrightarrow> length ds = length s"
  by (drule block_digits_Some) auto

lemma unat_block_number:
  assumes "block_digits s = Some ds" "length s \<le> 11"
  shows "unat (word_of_nat (from_digits 58 ds) :: u128) = from_digits 58 ds"
proof -
  have "from_digits 58 ds < 58 ^ length ds"
    using b58_facts(3) block_digits_Some [OF assms(1)] by blast
  also have "\<dots> \<le> 58 ^ 11" using assms length_block_digits by (intro power_increasing) auto
  also have "\<dots> < 2 ^ 128" by simp
  finally show ?thesis by (simp add: unat_of_nat)
qed

text \<open>What a block decodes to: a number below \<open>58\<^sup>n\<close>, written to \<open>k\<close> bytes modulo \<open>256\<^sup>k\<close>.\<close>

lemma decodeBlock_iff:
  "decodeBlock s = Some bs \<longleftrightarrow>
     (\<exists>ds k. block_digits s = Some ds \<and> 1 \<le> k \<and> k \<le> 8 \<and> length s = ENC_SIZES ! k \<and> length bs = k \<and>
        bytes_value bs = from_digits 58 ds mod 256 ^ k \<and> (k < 8 \<longrightarrow> from_digits 58 ds < 256 ^ k))"
  (is "?l = ?r")
proof (cases "enc_size (length s) \<le> 0")
  case True
  then have "decodeBlock s = None" by (simp add: decodeBlock_def)
  moreover have False if ?r
    using that True enc_size_ENC_SIZES by fastforce
  ultimately show ?thesis by (intro iffI) (simp, blast)
next
  case False
  then obtain k where k: "enc_size (length s) = int k" "1 \<le> k" "k \<le> 8" "length s = ENC_SIZES ! k" "length s \<le> 11"
    using enc_size_cases by (metis not_le)
  have k_unique: "k' = k" if "k' \<le> 8" "length s = ENC_SIZES ! k'" for k'
    using that k(1) enc_size_ENC_SIZES by fastforce
  show ?thesis
  proof (cases "block_digits s")
    case None
    with False show ?thesis by (simp add: decodeBlock_def block_value_spec)
  next
    case (Some ds)
    let ?v = "word_of_nat (from_digits 58 ds) :: u128"
    have v: "unat ?v = from_digits 58 ds" using Some k(5) by (rule unat_block_number)
    have over: "?v \<ge> push_bit (8 * k) 1 \<longleftrightarrow> from_digits 58 ds \<ge> 256 ^ k" if "k < 8"
    proof -
      have "(2 :: nat) ^ (8 * k) < 2 ^ 128" using that by (intro power_strict_increasing) auto
      then have "unat (word_of_nat (2 ^ (8 * k)) :: u128) = 2 ^ (8 * k)"
        by (subst unat_of_nat) simp
      moreover have "push_bit (8 * k) 1 = (word_of_nat (2 ^ (8 * k)) :: u128)" by simp
      ultimately have "unat (push_bit (8 * k) (1 :: u128)) = 2 ^ (8 * k)" by metis
      then show ?thesis by (simp add: word_le_nat_alt v power_mult)
    qed
    let ?bs = "map (\<lambda>i. ucast (drop_bit (8 * i) ?v) :: u8) (rev [0..<k])"
    have bs: "bytes_value ?bs = from_digits 58 ds mod 256 ^ k" "length ?bs = k"
      by (simp_all only: bytes_value_bytes v) simp
    have "?l \<longleftrightarrow> \<not> (k < 8 \<and> ?v \<ge> push_bit (8 * k) 1) \<and> bs = ?bs"
      using k Some by (auto simp: decodeBlock_def block_value_spec)
    also have "\<dots> \<longleftrightarrow> (k < 8 \<longrightarrow> from_digits 58 ds < 256 ^ k) \<and> bs = ?bs" using over by auto
    also have "bs = ?bs \<longleftrightarrow> length bs = k \<and> bytes_value bs = from_digits 58 ds mod 256 ^ k"
      using bs bytes_value_inj [of bs ?bs] by auto
    finally have eq: "?l \<longleftrightarrow> (k < 8 \<longrightarrow> from_digits 58 ds < 256 ^ k) \<and> length bs = k \<and>
      bytes_value bs = from_digits 58 ds mod 256 ^ k" .
    show ?thesis
    proof
      assume ?l
      with eq k Some show ?r by blast
    next
      assume ?r
      then obtain ds' k' where r: "block_digits s = Some ds'" "k' \<le> 8" "length s = ENC_SIZES ! k'" "length bs = k'"
        "bytes_value bs = from_digits 58 ds' mod 256 ^ k'" "k' < 8 \<longrightarrow> from_digits 58 ds' < 256 ^ k'"
        by blast
      from r(2, 3) have "k' = k" by (rule k_unique)
      moreover have "ds' = ds" using r(1) Some by simp
      ultimately show ?l using eq r by blast
    qed
  qed
qed

section \<open>Decoding is block by block, and inverts the encoder\<close>

lemma chunks_single: "xs \<noteq> [] \<Longrightarrow> length xs \<le> n \<Longrightarrow> chunks n xs = [xs]"
  by (subst chunks.simps) (cases xs, auto)

lemma chunks_unfold: "xs \<noteq> [] \<Longrightarrow> 0 < n \<Longrightarrow> chunks n xs = take n xs # chunks n (drop n xs)"
  by (subst chunks.simps) auto

lemma base58_loop_chunks:
  "base58_loop s i out = map_option (\<lambda>bss. out @ concat bss) (those (map decodeBlock (chunks 11 (drop i s))))"
proof (induction s i out rule: base58_loop.induct)
  case (1 s i out)
  show ?case
  proof (cases "i < length s")
    case True
    then have "chunks 11 (drop i s) = take 11 (drop i s) # chunks 11 (drop (i + 11) s)"
      by (subst chunks_unfold) (simp_all add: add.commute)
    moreover have "take (min 11 (length s - i)) (drop i s) = take 11 (drop i s)"
      by (simp add: min_def)
    ultimately show ?thesis using 1 [OF True]
      by (simp add: base58_loop.simps [of s i out] True option.map_comp comp_def split: option.splits)
  qed (simp add: base58_loop.simps [of s i out])
qed

lemma base58Decode_chunks: "base58Decode s = map_option concat (those (map decodeBlock (chunks 11 s)))"
  by (simp add: base58Decode_def base58_loop_chunks)

lemma ENC_SIZES_bounds: "1 \<le> k \<Longrightarrow> k \<le> 8 \<Longrightarrow> 2 \<le> ENC_SIZES ! k \<and> ENC_SIZES ! k \<le> 11"
  using enc_size_ENC_SIZES [of k] by (auto simp: ENC_SIZES_def le_Suc_eq numeral_eq_Suc)

lemma length_encode_block [simp]: "length (encode_block bs) = ENC_SIZES ! length bs"
  by (simp add: encode_block_def)

lemma decode_encode_block:
  assumes "bs \<noteq> []" "length bs \<le> 8"
  shows "decodeBlock (encode_block bs) = Some bs"
proof -
  let ?ds = "to_digits 58 (ENC_SIZES ! length bs) (bytes_value bs)"
  have "bytes_value bs < 58 ^ (ENC_SIZES ! length bs)"
    using bytes_value_less [of bs] ENC_SIZES_fit [OF assms(2)] by linarith
  then have "from_digits 58 ?ds = bytes_value bs" by (simp add: b58_facts(1))
  moreover have "block_digits (encode_block bs) = Some ?ds"
    unfolding encode_block_def by (rule block_digits_map) (use b58_facts(2) in blast)
  moreover have "1 \<le> length bs" using assms(1) by (cases bs) auto
  ultimately show ?thesis
    using assms(2) bytes_value_less [of bs] by (auto simp: decodeBlock_iff)
qed

lemma chunks_encode: "chunks 11 (base58Encode bs) = map encode_block (chunks 8 bs)"
proof (induction "8 :: nat" bs rule: chunks.induct)
  case (1 bs)
  show ?case
  proof (cases "bs = []")
    case False
    have e: "base58Encode bs = encode_block (take 8 bs) @ base58Encode (drop 8 bs)"
      using False by (simp add: base58Encode_def chunks_unfold [of bs 8])
    show ?thesis
    proof (cases "length bs \<le> 8")
      case True
      moreover have "1 \<le> length bs" using False by (cases bs) auto
      ultimately have "2 \<le> ENC_SIZES ! length bs" "ENC_SIZES ! length bs \<le> 11" using ENC_SIZES_bounds by blast+
      then have "encode_block bs \<noteq> []" "length (encode_block bs) \<le> 11"
        by (auto simp flip: length_greater_0_conv)
      with True e show ?thesis
        by (simp add: chunks_single chunks_single [OF False True] base58Encode_def)
    next
      case long: False
      then have "length (encode_block (take 8 bs)) = 11" by (simp add: ENC_SIZES_def)
      with 1 False show ?thesis
        by (simp add: e chunks_append_block chunks_unfold [of bs 8])
    qed
  qed (simp add: base58Encode_def)
qed

lemma concat_chunks: "0 < n \<Longrightarrow> concat (chunks n xs) = xs"
  by (induction n xs rule: chunks.induct) (subst chunks.simps, auto)

lemma chunks_sizes: "c \<in> set (chunks n xs) \<Longrightarrow> c \<noteq> [] \<and> length c \<le> n"
proof (induction n xs rule: chunks.induct)
  case (1 n xs)
  then show ?case by (subst (asm) (2) chunks.simps) (auto split: if_splits)
qed

text \<open>Nothing outside the alphabet decodes.\<close>

lemma decodeBlock_chars: "decodeBlock s = Some c \<Longrightarrow> set s \<subseteq> set ALPHABET"
  by (auto simp: decodeBlock_iff dest!: block_digits_Some)

lemma base58Decode_chars:
  assumes "base58Decode s = Some b"
  shows "set s \<subseteq> set ALPHABET"
proof -
  have "those xs = Some ys \<Longrightarrow> x \<in> set xs \<Longrightarrow> \<exists>y. x = Some y" for xs :: "u8 list option list" and ys x
    by (induction xs arbitrary: ys) (auto split: option.splits)
  with assms have "\<exists>c. decodeBlock x = Some c" if "x \<in> set (chunks 11 s)" for x
    using that unfolding base58Decode_chunks by fastforce
  then have "set (concat (chunks 11 s)) \<subseteq> set ALPHABET" using decodeBlock_chars by fastforce
  then show ?thesis by (simp add: concat_chunks)
qed

lemma those_map_Some: "(\<And>x. x \<in> set xs \<Longrightarrow> f x = Some (g x)) \<Longrightarrow> those (map f xs) = Some (map g xs)"
  by (induction xs) auto

lemma base58_roundtrip: "base58Decode (base58Encode bs) = Some bs"
proof -
  have "those (map decodeBlock (map encode_block (chunks 8 bs))) = Some (map id (chunks 8 bs))"
    unfolding map_map by (rule those_map_Some) (simp add: decode_encode_block chunks_sizes)
  then show ?thesis by (simp add: base58Decode_chunks chunks_encode concat_chunks)
qed

text \<open>A block below the overflow bound is the encoder's: the decoder is injective there.\<close>

lemma decodeBlock_canonical:
  assumes "decodeBlock s = Some bs" "block_digits s = Some ds" "from_digits 58 ds < 256 ^ length bs"
  shows "s = encode_block bs"
proof -
  obtain k where k: "k = length bs" "length s = ENC_SIZES ! k" "bytes_value bs = from_digits 58 ds mod 256 ^ k"
    using assms(1, 2) by (auto simp: decodeBlock_iff)
  have ds: "\<forall>d\<in>set ds. d < 58" "s = map ((!) ALPHABET) ds" "length ds = length s"
    using block_digits_Some [OF assms(2)] length_block_digits [OF assms(2)] by auto
  have "bytes_value bs = from_digits 58 ds" using k assms(3) by simp
  then have "to_digits 58 (ENC_SIZES ! length bs) (bytes_value bs) = ds"
    using b58_facts(4) [OF ds(1)] ds(3) k(1, 2) by simp
  then show ?thesis using ds(2) by (simp add: encode_block_def)
qed

lemma decodeBlock_short_canonical:
  assumes "decodeBlock s = Some bs" "length s < 11"
  shows "s = encode_block bs"
proof -
  obtain ds where ds: "block_digits s = Some ds" "length s = ENC_SIZES ! length bs" "length bs \<le> 8"
    "length bs < 8 \<longrightarrow> from_digits 58 ds < 256 ^ length bs"
    using assms(1) by (auto simp: decodeBlock_iff)
  moreover have "length bs \<noteq> 8"
  proof
    assume "length bs = 8"
    then have "length s = 11" using ds(2) by (simp add: ENC_SIZES_def)
    with assms(2) show False by simp
  qed
  ultimately show ?thesis using decodeBlock_canonical [OF assms(1) ds(1)] by simp
qed

section \<open>A full block has a second spelling\<close>

text \<open>
  The range check is skipped for 8-byte blocks, and \<open>58\<^sup>1\<^sup>1\<close> exceeds \<open>2\<^sup>6\<^sup>4\<close>: a block whose
  number is small enough decodes the same as the block of that number plus \<open>2\<^sup>6\<^sup>4\<close>.
\<close>

definition alias_block :: "nat list \<Rightarrow> string" where
  "alias_block ds = map ((!) ALPHABET) (to_digits 58 11 (from_digits 58 ds + 2 ^ 64))"

lemma decodeBlock_alias:
  assumes "block_digits s = Some ds" "length s = 11" "from_digits 58 ds + 2 ^ 64 < 58 ^ 11"
  shows "decodeBlock (alias_block ds) = decodeBlock s" "alias_block ds \<noteq> s" "length (alias_block ds) = 11"
    "decodeBlock s \<noteq> None"
proof -
  let ?es = "to_digits 58 11 (from_digits 58 ds + 2 ^ 64)"
  have es: "block_digits (alias_block ds) = Some ?es"
    unfolding alias_block_def by (rule block_digits_map) (use b58_facts(2) in blast)
  have val: "from_digits 58 ?es = from_digits 58 ds + 2 ^ 64" using assms(3) by (simp add: b58_facts(1))
  show len: "length (alias_block ds) = 11" by (simp add: alias_block_def)
  have k8: "k \<le> 8 \<Longrightarrow> ENC_SIZES ! k = 11 \<longleftrightarrow> k = 8" for k
    using enc_size_ENC_SIZES [of k] enc_size_ENC_SIZES [of 8] by (auto simp: ENC_SIZES_def)
  have dec: "decodeBlock t = Some bs \<longleftrightarrow> length bs = 8 \<and> bytes_value bs = from_digits 58 fs mod 256 ^ 8"
    if "block_digits t = Some fs" "length t = 11" for t fs bs
    using that k8 by (auto simp: decodeBlock_iff)
  have "(from_digits 58 ds + 2 ^ 64) mod 256 ^ 8 = from_digits 58 ds mod 256 ^ 8" by simp
  then have "decodeBlock (alias_block ds) = Some bs \<longleftrightarrow> decodeBlock s = Some bs" for bs
    using dec [OF es len] dec [OF assms(1, 2)] val by simp
  then show "decodeBlock (alias_block ds) = decodeBlock s"
    by (metis option.exhaust)
  show "alias_block ds \<noteq> s"
    using es assms(1) val by auto
  let ?bs = "map word_of_nat (to_digits 256 8 (from_digits 58 ds)) :: u8 list"
  have "map unat ?bs = to_digits 256 8 (from_digits 58 ds)"
    by (auto simp: unat_of_nat comp_def intro!: map_idI dest: byte.to_digits_less)
  then have "decodeBlock s = Some ?bs"
    using dec [OF assms(1, 2), of ?bs] by (simp add: bytes_value_def byte.from_to_digits del: to_digits.simps map_map)
  then show "decodeBlock s \<noteq> None" by simp
qed

lemma base58Decode_alias:
  assumes "block_digits s = Some ds" "length s = 11" "from_digits 58 ds + 2 ^ 64 < 58 ^ 11" "11 dvd length p"
  shows "base58Decode (p @ alias_block ds @ q) = base58Decode (p @ s @ q)"
proof -
  have "chunks 11 (p @ r) = chunks 11 p @ chunks 11 r" for r :: string
    using assms(4)
  proof (induction "11 :: nat" p rule: chunks.induct)
    case (1 p)
    show ?case
    proof (cases "p = []")
      case False
      then have "11 \<le> length p" using 1(2) by (auto dest: dvd_imp_le)
      with 1 False show ?thesis by (simp add: chunks_unfold)
    qed simp
  qed
  then show ?thesis
    using decodeBlock_alias [OF assms(1-3)] assms(2)
    by (simp add: base58Decode_chunks chunks_append_block)
qed


section \<open>Varints\<close>

text \<open>The reference writer: seven bits a byte, least significant first.\<close>

fun write_varint :: "nat \<Rightarrow> u8 list" where
  "write_varint v = (if v < 128 then [word_of_nat v]
     else word_of_nat (128 + v mod 128) # write_varint (v div 128))"

declare write_varint.simps [simp del]

lemma bit_word_unat: "bit (w :: 'a :: len word) n = bit (unat w) n"
  by (simp add: bit_unsigned_iff)

lemma or_push_bit_add:
  assumes "unat (a :: u64) < 2 ^ k"
  shows "a OR push_bit k b = a + push_bit k b"
proof -
  have "\<not> bit a n" if "k \<le> n" for n
  proof -
    have "unat a < 2 ^ n" using assms that by (meson le_less_trans less_le_trans linorder_not_less one_le_numeral power_increasing)
    then show ?thesis by (simp add: bit_word_unat bit_iff_odd)
  qed
  then show ?thesis
    by (intro disjunctive_add_eq_or [symmetric] bit_eqI) (auto simp: bit_and_iff bit_push_bit_iff not_le)
qed


lemma byte_continues: "(x :: u8) AND 0x80 = 0 \<longleftrightarrow> unat x < 128"
proof -
  have "(x AND 0x80 = 0) = (\<not> bit x 7)" using and_exp_eq_0_iff_not_bit [of x 7] by simp
  also have "\<dots> = even (unat x div 128)" by (simp add: bit_word_unat bit_iff_odd)
  also have "\<dots> = (unat x < 128)"
  proof (cases "unat x < 128")
    case False
    then have "unat x div 128 = Suc 0" using unat_u8_less [of x] by (intro div_nat_eqI) simp_all
    with False show ?thesis by simp
  qed simp
  finally show ?thesis .
qed

lemma ucast_unat: "ucast (x :: u8) = (word_of_nat (unat x) :: u64)"
  by simp

lemma byte_low7: "ucast ((x :: u8) AND 0x7f) = (word_of_nat (unat x mod 128) :: u64)"
proof -
  have "x AND 0x7f = take_bit 7 x" by (simp add: take_bit_eq_mask mask_eq_exp_minus_1)
  then have "unat (x AND 0x7f) = unat x mod 128" 
    by (simp only: unsigned_take_bit_eq take_bit_eq_mod [of 7 "unat x"]) simp
  then show ?thesis using ucast_unat [of "x AND 0x7f"] by metis
qed


lemma push_bit_low7:
  assumes "shift < 64"
  shows "push_bit shift (word_of_nat m :: u64) = word_of_nat (m * 2 ^ shift)"
  by (simp add: push_bit_eq_mult)

lemma write_varint_nonempty [simp]: "write_varint v \<noteq> []"
  by (subst write_varint.simps) simp

lemma varint_loop_write:
  assumes "drop n b = write_varint u @ rest" "unat acc < 2 ^ shift" "shift < 64" "u * 2 ^ shift < 2 ^ 64"
  shows "varint_loop b acc n shift = Some (acc + word_of_nat (u * 2 ^ shift), n + length (write_varint u))"
  using assms
proof (induction u arbitrary: acc n shift rule: write_varint.induct)
  case (1 u)
  have n: "n < length b" using 1(2) by (metis append_is_Nil_conv drop_all not_le write_varint_nonempty)
  have bn: "b ! n = hd (write_varint u)"
    using 1(2) n by (metis hd_append2 hd_drop_conv_nth write_varint_nonempty)
  have step: "acc OR push_bit shift (ucast (b ! n AND 0x7f)) = acc + word_of_nat (unat (b ! n) mod 128 * 2 ^ shift)"
    unfolding byte_low7 push_bit_low7 [OF 1(4), symmetric] by (rule or_push_bit_add) (rule 1(3))
  show ?case
  proof (cases "u < 128")
    case True
    then have "unat (b ! n) = u" by (simp add: bn write_varint.simps [of u] unat_of_nat)
    with True 1 n step show ?thesis
      by (simp add: varint_loop.simps [of b] byte_continues write_varint.simps [of u])
  next
    case False
    let ?acc = "acc + word_of_nat (u mod 128 * 2 ^ shift)"
    have b: "unat (b ! n) = 128 + u mod 128"
    proof -
      have "b ! n = word_of_nat (128 + u mod 128)" using False by (simp add: bn write_varint.simps [of u])
      moreover have "128 + u mod 128 < 256" using mod_less_divisor [of 128 u] by linarith
      ultimately show ?thesis by (simp only: unat_of_nat) simp
    qed
    then have m: "unat (b ! n) mod 128 = u mod 128" by simp
    have "(2 :: nat) ^ (7 + shift) = 128 * 2 ^ shift" by (simp add: power_add)
    also have "\<dots> \<le> u * 2 ^ shift" using False by (intro mult_right_mono) auto
    also have "\<dots> < 2 ^ 64" by (rule 1(5))
    finally have "(2 :: nat) ^ (7 + shift) < 2 ^ 64" .
    then have shift: "shift + 7 < 64" using power_less_imp_less_exp [of 2 "7 + shift" 64] by simp
    have low: "u mod 128 * 2 ^ shift + 2 ^ shift \<le> 2 ^ (shift + 7)"
    proof -
      have "(u mod 128 + 1) * 2 ^ shift \<le> 128 * 2 ^ shift" by (intro mult_right_mono) auto
      then show ?thesis by (simp add: power_add mult.commute algebra_simps)
    qed
    have "(2 :: nat) ^ (shift + 7) < 2 ^ 64" using shift by (intro power_strict_increasing) auto
    then have un: "unat (word_of_nat (u mod 128 * 2 ^ shift) :: u64) = u mod 128 * 2 ^ shift"
      using low by (subst unat_of_nat) simp
    have "unat ?acc \<le> unat acc + u mod 128 * 2 ^ shift"
      by (metis un unat_plus_if_size  le_add1 le_refl  unat_add_lem unat_word_ariths(1) mod_less_eq_dividend)
    then have acc: "unat ?acc < 2 ^ (shift + 7)" using low 1(3) by linarith
    have rest: "drop (n + 1) b = write_varint (u div 128) @ rest"
      using 1(2) False by (simp add: write_varint.simps [of u] drop_Suc tl_drop flip: tl_drop)
    have "u div 128 * 2 ^ (shift + 7) \<le> u * 2 ^ shift" by (simp add: power_add)
    then have up: "u div 128 * 2 ^ (shift + 7) < 2 ^ 64" using 1(5) by linarith
    have sum: "u mod 128 * 2 ^ shift + u div 128 * 2 ^ (shift + 7) = u * 2 ^ shift"
    proof -
      define q r where qr: "q = u div 128" "r = u mod 128"
      then have "u = r + q * 128" by simp
      then show ?thesis unfolding qr [symmetric] by (simp add: power_add algebra_simps)
    qed
    have "varint_loop b acc n shift = varint_loop b ?acc (n + 1) (shift + 7)"
      using n 1(4) step b m by (simp add: varint_loop.simps [of b acc] byte_continues)
    also have "\<dots> = Some (?acc + word_of_nat (u div 128 * 2 ^ (shift + 7)), n + 1 + length (write_varint (u div 128)))"
      by (rule 1(1) [OF False rest acc shift up])
    also have "?acc + word_of_nat (u div 128 * 2 ^ (shift + 7)) = acc + word_of_nat (u * 2 ^ shift)"
      by (simp only: add.assoc of_nat_add [symmetric] sum)
    finally show ?thesis using False by (simp add: write_varint.simps [of u])
  qed
qed

lemma readVarint_write:
  assumes "v < 2 ^ 64"
  shows "readVarint (write_varint v @ rest) = Some (word_of_nat v, length (write_varint v))"
  using varint_loop_write [of 0 "write_varint v @ rest" v rest 0 0] assms by (simp add: readVarint_def)

lemma varint_loop_bounds:
  "varint_loop b v n shift = Some (w, m) \<Longrightarrow> n < m \<and> m \<le> length b \<and> 7 * (m - n) \<le> 70 - shift"
proof (induction b v n shift rule: varint_loop.induct)
  case (1 b v n shift)
  then show ?case
    by (subst (asm) (2) varint_loop.simps) (auto simp: Let_def split: if_splits)
qed

lemma readVarint_bounds: "readVarint b = Some (v, n) \<Longrightarrow> 1 \<le> n \<and> n \<le> 10 \<and> n \<le> length b"
  using varint_loop_bounds [of b 0 0 0] by (auto simp: readVarint_def)

section \<open>The decoder inverts the encoder\<close>

text \<open>C36. Decoding what the encoder writes gives the bytes back, for every byte string.\<close>

theorem base58_decode_encode: "base58Decode (base58Encode bs) = Some bs"
  by (rule base58_roundtrip)

text \<open>Reading a varint gives back every 64-bit number written, with the number of bytes it took, whatever follows.\<close>

theorem varint_read_write:
  assumes "v < 2 ^ 64"
  shows "readVarint (write_varint v @ rest) = Some (word_of_nat v, length (write_varint v))"
  using readVarint_write [OF assms] .

lemma varint_read_write_witness:
  "readVarint (write_varint 300 @ [7]) = Some (300, length (write_varint 300))"
  using varint_read_write [of 300 "[7]"] by simp

text \<open>A varint read never runs past the bytes and takes at most ten of them.\<close>

theorem varint_read_bounds:
  assumes "readVarint b = Some (v, n)"
  shows "1 \<le> n \<and> n \<le> 10 \<and> n \<le> length b"
  using readVarint_bounds [OF assms] .

lemma varint_read_bounds_witness: "(1 :: nat) \<le> 2 \<and> (2 :: nat) \<le> 10 \<and> 2 \<le> length [0x92, 0x00 :: u8]"
  by (rule varint_read_bounds [of "[0x92, 0x00]" 18 2]) code_simp

text \<open>A block shorter than eleven characters decodes only if it is the encoding of its bytes, and an
  eleven-character one that is not read modulo \<open>2 ^ 64\<close> too: below that bound decoding is injective.\<close>

theorem decodeBlock_injective:
  assumes "decodeBlock s = Some bs" "decodeBlock s' = Some bs"
    and "length s < 11 \<or> (\<exists>ds. block_digits s = Some ds \<and> from_digits 58 ds < 2 ^ 64)"
    and "length s' < 11 \<or> (\<exists>ds. block_digits s' = Some ds \<and> from_digits 58 ds < 2 ^ 64)"
  shows "s = s'"
proof -
  have "t = encode_block bs" if "decodeBlock t = Some bs"
    "length t < 11 \<or> (\<exists>ds. block_digits t = Some ds \<and> from_digits 58 ds < 2 ^ 64)" for t
  proof (cases "length t < 11")
    case False
    with that(2) obtain ds where ds: "block_digits t = Some ds" "from_digits 58 ds < 2 ^ 64" by blast
    have "length bs = 8"
      using that(1) False by (auto simp: decodeBlock_iff ENC_SIZES_def nth_Cons' split: if_splits)
    then show ?thesis using decodeBlock_canonical [OF that(1) ds(1)] ds(2) by simp
  qed (use that decodeBlock_short_canonical in blast)
  with assms show ?thesis by metis
qed

lemma decodeBlock_injective_witness: "decodeBlock ''12'' = Some [1] \<and> ''12'' = encode_block [1]"
proof -
  have d: "decodeBlock ''12'' = Some [1]" "decodeBlock (encode_block [1]) = Some [1]" "length (encode_block [1]) = 2"
    by code_simp+
  with decodeBlock_injective [OF d(1,2)] show ?thesis by simp
qed

end
