(* ===== verification/Keccak.thy ===== *)
theory Keccak
  imports Prelude
begin

text \<open>
  The Keccak-256 hash of \<^verbatim>\<open>src/address_check.cpp\<close>: the constant tables, the permutation
  \<^verbatim>\<open>keccakf\<close> loop by loop on a list of 25 lanes, and \<^verbatim>\<open>keccak256\<close>.
\<close>

section \<open>The code's tables and loops\<close>

definition RC :: "u64 list" where
  "RC = [
    0x0000000000000001, 0x0000000000008082, 0x800000000000808a, 0x8000000080008000,
    0x000000000000808b, 0x0000000080000001, 0x8000000080008081, 0x8000000000008009,
    0x000000000000008a, 0x0000000000000088, 0x0000000080008009, 0x000000008000000a,
    0x000000008000808b, 0x800000000000008b, 0x8000000000008089, 0x8000000000008003,
    0x8000000000008002, 0x8000000000000080, 0x000000000000800a, 0x800000008000000a,
    0x8000000080008081, 0x8000000000008080, 0x0000000080000001, 0x8000000080008008]"

definition ROT :: "nat list" where
  "ROT = [1, 3, 6, 10, 15, 21, 28, 36, 45, 55, 2, 14, 27, 41, 56, 8, 25, 43, 62, 18, 39, 61, 20, 44]"

definition PIL :: "nat list" where
  "PIL = [10, 7, 11, 17, 18, 3, 5, 16, 8, 21, 24, 4, 15, 23, 19, 13, 12, 2, 20, 14, 22, 9, 6, 1]"

definition rotl :: "u64 \<Rightarrow> nat \<Rightarrow> u64" where
  "rotl x n = (push_bit n x) OR (drop_bit (64 - n) x)"

text \<open>The loop over the columns: their parities, then each column xored with its two neighbours'.\<close>

definition theta_bc :: "u64 list \<Rightarrow> u64 list" where
  "theta_bc st = map (\<lambda>i. st ! i XOR st ! (i + 5) XOR st ! (i + 10) XOR st ! (i + 15) XOR st ! (i + 20)) [0, 1, 2, 3, 4]"

definition theta :: "u64 list \<Rightarrow> u64 list" where
  "theta st = (let bc = theta_bc st in
     fold (\<lambda>i st. let t = bc ! ((i + 4) mod 5) XOR rotl (bc ! ((i + 1) mod 5)) 1 in
       fold (\<lambda>j st. st[j + i := st ! (j + i) XOR t]) [0, 5, 10, 15, 20] st) [0, 1, 2, 3, 4] st)"

text \<open>The in-place walk along the 24 lanes that move: rotate the carried lane into the next place.\<close>

definition rho_pi_step :: "nat \<Rightarrow> u64 list \<times> u64 \<Rightarrow> u64 list \<times> u64" where
  "rho_pi_step i = (\<lambda>(st, t). let j = PIL ! i; tmp = st ! j in (st[j := rotl t (ROT ! i)], tmp))"

definition rho_pi :: "u64 list \<Rightarrow> u64 list" where
  "rho_pi st = fst (fold rho_pi_step [0..<24] (st, st ! 1))"

definition chi :: "u64 list \<Rightarrow> u64 list" where
  "chi st = fold (\<lambda>j st. let bc = map (\<lambda>i. st ! (j + i)) [0, 1, 2, 3, 4] in
     fold (\<lambda>i st. st[j + i := st ! (j + i) XOR (NOT (bc ! ((i + 1) mod 5)) AND bc ! ((i + 2) mod 5))])
       [0, 1, 2, 3, 4] st) [0, 5, 10, 15, 20] st"

definition keccak_round :: "nat \<Rightarrow> u64 list \<Rightarrow> u64 list" where
  "keccak_round r st = (let st' = chi (rho_pi (theta st)) in st'[0 := st' ! 0 XOR RC ! r])"

definition keccakf :: "u64 list \<Rightarrow> u64 list" where
  "keccakf st = fold keccak_round [0..<24] st"

text \<open>\<^verbatim>\<open>memcpy\<close> of eight bytes into a lane and of lanes into bytes, on a little-endian host.\<close>

definition load64 :: "u8 list \<Rightarrow> u64" where
  "load64 bs = foldr (\<lambda>b w. ucast b OR push_bit 8 w) (take 8 bs) 0"

definition store64 :: "u64 \<Rightarrow> u8 list" where
  "store64 w = map (\<lambda>k. ucast (drop_bit (8 * k) w)) [0..<8]"

definition rate :: nat where
  "rate = 136"

text \<open>\<^verbatim>\<open>for (i < rate / 8) st[i] ^= w\<close>: the first 17 lanes absorb a block.\<close>

definition absorb_block :: "u64 list \<Rightarrow> u8 list \<Rightarrow> u64 list" where
  "absorb_block st block =
     fold (\<lambda>i st. st[i := st ! i XOR load64 (drop (8 * i) block)]) [0..<rate div 8] st"

function absorb_full :: "u64 list \<Rightarrow> u8 list \<Rightarrow> u64 list \<times> u8 list" where
  "absorb_full st inp =
     (if length inp \<ge> rate then absorb_full (keccakf (absorb_block st inp)) (drop rate inp)
      else (st, inp))"
  by pat_completeness auto
termination
  by (relation "measure (\<lambda>(st, inp). length inp)") (auto simp: rate_def)

declare absorb_full.simps [simp del]

text \<open>The last block: the tail, zeros, then bit 0 of the byte after the tail and bit 7 of the last one.\<close>

definition pad_last :: "u8 list \<Rightarrow> u8 list" where
  "pad_last inp =
     (let tmp = inp @ replicate (rate - length inp) 0;
          tmp = tmp[length inp := tmp ! length inp OR 0x01]
      in tmp[rate - 1 := tmp ! (rate - 1) OR 0x80])"

definition keccak256 :: "u8 list \<Rightarrow> u8 list" where
  "keccak256 inp =
     (case absorb_full (replicate 25 0) inp of (st, tail) \<Rightarrow>
        take 32 (concat (map store64 (keccakf (absorb_block st (pad_last tail))))))"

section \<open>The loops on 25 lanes, written out\<close>

lemma upt_24: "[0..<24] = [0, 1, 2, 3, 4, 5, 6, 7, 8, 9, 10, 11, 12, 13, 14, 15, 16, 17, 18, 19, 20, 21, 22, 23]"
  by (simp add: upt_rec)

lemma upt_25: "[0..<25] = [0, 1, 2, 3, 4, 5, 6, 7, 8, 9, 10, 11, 12, 13, 14, 15, 16, 17, 18, 19, 20, 21, 22, 23, 24]"
  by (simp add: upt_rec)

lemma lanes25_cases:
  assumes "length st = 25"
  obtains a0 a1 a2 a3 a4 a5 a6 a7 a8 a9 a10 a11 a12 a13 a14 a15 a16 a17 a18 a19 a20 a21 a22 a23 a24
  where "st = [a0,a1,a2,a3,a4,a5,a6,a7,a8,a9,a10,a11,
     a12,a13,a14,a15,a16,a17,a18,a19,a20,a21,a22,a23,a24]"
  using assms by (auto simp: numeral_eq_Suc length_Suc_conv)

lemma theta_list:
  "theta [a0,a1,a2,a3,a4,a5,a6,a7,a8,a9,a10,a11,
     a12,a13,a14,a15,a16,a17,a18,a19,a20,a21,a22,a23,a24] =
    (let c0 = a0 XOR a5 XOR a10 XOR a15 XOR a20; c1 = a1 XOR a6 XOR a11 XOR a16 XOR a21;
         c2 = a2 XOR a7 XOR a12 XOR a17 XOR a22; c3 = a3 XOR a8 XOR a13 XOR a18 XOR a23;
         c4 = a4 XOR a9 XOR a14 XOR a19 XOR a24;
         d0 = c4 XOR rotl c1 1; d1 = c0 XOR rotl c2 1; d2 = c1 XOR rotl c3 1;
         d3 = c2 XOR rotl c4 1; d4 = c3 XOR rotl c0 1
     in [a0 XOR d0, a1 XOR d1, a2 XOR d2, a3 XOR d3, a4 XOR d4,
         a5 XOR d0, a6 XOR d1, a7 XOR d2, a8 XOR d3, a9 XOR d4,
         a10 XOR d0, a11 XOR d1, a12 XOR d2, a13 XOR d3, a14 XOR d4,
         a15 XOR d0, a16 XOR d1, a17 XOR d2, a18 XOR d3, a19 XOR d4,
         a20 XOR d0, a21 XOR d1, a22 XOR d2, a23 XOR d3, a24 XOR d4])"
  by (simp add: theta_def theta_bc_def Let_def)

lemma rho_pi_list:
  "rho_pi [a0,a1,a2,a3,a4,a5,a6,a7,a8,a9,a10,a11,
     a12,a13,a14,a15,a16,a17,a18,a19,a20,a21,a22,a23,a24] =
    [a0, rotl a6 44, rotl a12 43, rotl a18 21, rotl a24 14,
     rotl a3 28, rotl a9 20, rotl a10 3, rotl a16 45, rotl a22 61,
     rotl a1 1, rotl a7 6, rotl a13 25, rotl a19 8, rotl a20 18,
     rotl a4 27, rotl a5 36, rotl a11 10, rotl a17 15, rotl a23 56,
     rotl a2 62, rotl a8 55, rotl a14 39, rotl a15 41, rotl a21 2]"
  by (simp add: rho_pi_def rho_pi_step_def upt_24 PIL_def ROT_def)

lemma chi_list:
  "chi [a0,a1,a2,a3,a4,a5,a6,a7,a8,a9,a10,a11,
     a12,a13,a14,a15,a16,a17,a18,a19,a20,a21,a22,a23,a24] =
    [a0 XOR (NOT a1 AND a2), a1 XOR (NOT a2 AND a3), a2 XOR (NOT a3 AND a4), a3 XOR (NOT a4 AND a0),
     a4 XOR (NOT a0 AND a1), a5 XOR (NOT a6 AND a7), a6 XOR (NOT a7 AND a8), a7 XOR (NOT a8 AND a9),
     a8 XOR (NOT a9 AND a5), a9 XOR (NOT a5 AND a6), a10 XOR (NOT a11 AND a12), a11 XOR (NOT a12 AND a13),
     a12 XOR (NOT a13 AND a14), a13 XOR (NOT a14 AND a10), a14 XOR (NOT a10 AND a11),
     a15 XOR (NOT a16 AND a17), a16 XOR (NOT a17 AND a18), a17 XOR (NOT a18 AND a19),
     a18 XOR (NOT a19 AND a15), a19 XOR (NOT a15 AND a16), a20 XOR (NOT a21 AND a22),
     a21 XOR (NOT a22 AND a23), a22 XOR (NOT a23 AND a24), a23 XOR (NOT a24 AND a20),
     a24 XOR (NOT a20 AND a21)]"
  by (simp add: chi_def Let_def)

section \<open>The reference permutation, on a 5 by 5 array of lanes\<close>

text \<open>
  The published definition of Keccak-f[1600]: lane \<open>(x, y)\<close> is the code's \<^verbatim>\<open>st[x + 5 * y]\<close>,
  coordinates are taken modulo 5, the rotation offsets are the triangular numbers along the
  walk \<open>(x, y) \<mapsto> (y, 2x + 3y)\<close> from \<open>(1, 0)\<close>, and the round constants come from a shift register.
\<close>

type_synonym lanes = "nat \<Rightarrow> nat \<Rightarrow> u64"

definition lanes_of :: "u64 list \<Rightarrow> lanes" where
  "lanes_of st x y = st ! (x mod 5 + 5 * (y mod 5))"

definition list_of :: "lanes \<Rightarrow> u64 list" where
  "list_of A = map (\<lambda>k. A (k mod 5) (k div 5)) [0..<25]"

definition spec_column :: "lanes \<Rightarrow> nat \<Rightarrow> u64" where
  "spec_column A x = A x 0 XOR A x 1 XOR A x 2 XOR A x 3 XOR A x 4"

definition spec_theta :: "lanes \<Rightarrow> lanes" where
  "spec_theta A x y = A x y XOR (spec_column A (x + 4) XOR word_rotl 1 (spec_column A (x + 1)))"

fun rho_walk :: "nat \<Rightarrow> nat \<times> nat" where
  "rho_walk 0 = (1, 0)"
| "rho_walk (Suc t) = (case rho_walk t of (x, y) \<Rightarrow> (y, (2 * x + 3 * y) mod 5))"

definition rho_offset :: "nat \<Rightarrow> nat \<Rightarrow> nat" where
  "rho_offset x y = (case find (\<lambda>t. rho_walk t = (x, y)) [0..<24] of
     None \<Rightarrow> 0 | Some t \<Rightarrow> ((t + 1) * (t + 2) div 2) mod 64)"

definition spec_rho :: "lanes \<Rightarrow> lanes" where
  "spec_rho A x y = word_rotl (rho_offset (x mod 5) (y mod 5)) (A x y)"

text \<open>\<open>B[y, 2x + 3y] = A[x, y]\<close>, solved for the lane that moves to \<open>(x, y)\<close>.\<close>

definition spec_pi :: "lanes \<Rightarrow> lanes" where
  "spec_pi A x y = A (x + 3 * y) x"

definition spec_chi :: "lanes \<Rightarrow> lanes" where
  "spec_chi A x y = A x y XOR (NOT (A (x + 1) y) AND A (x + 2) y)"

definition lfsr_step :: "nat \<Rightarrow> nat" where
  "lfsr_step x = (let r = 2 * x in if r \<ge> 256 then (r - 256) XOR 0x71 else r)"

text \<open>Bit \<open>2^j - 1\<close> of a round constant is the register's output after \<open>j\<close> more steps.\<close>

definition rc_word :: "nat \<Rightarrow> u64" where
  "rc_word x = foldl (\<lambda>w j. if odd ((lfsr_step ^^ j) x) then w OR push_bit (2 ^ j - 1) 1 else w) 0 [0..<7]"

definition spec_RC :: "nat \<Rightarrow> u64" where
  "spec_RC r = rc_word ((lfsr_step ^^ (7 * r)) 1)"

definition spec_iota :: "nat \<Rightarrow> lanes \<Rightarrow> lanes" where
  "spec_iota r A x y = (if x mod 5 = 0 \<and> y mod 5 = 0 then A x y XOR spec_RC r else A x y)"

definition spec_round :: "nat \<Rightarrow> lanes \<Rightarrow> lanes" where
  "spec_round r A = spec_iota r (spec_chi (spec_pi (spec_rho (spec_theta A))))"

definition spec_keccakf :: "lanes \<Rightarrow> lanes" where
  "spec_keccakf A = fold spec_round [0..<24] A"

section \<open>The tables are the published ones\<close>

primrec rc_list :: "nat \<Rightarrow> nat \<Rightarrow> u64 list" where
  "rc_list x 0 = []"
| "rc_list x (Suc n) = rc_word x # rc_list ((lfsr_step ^^ 7) x) n"

lemma rc_list_map: "rc_list ((lfsr_step ^^ (7 * k)) 1) n = map spec_RC [k..<k + n]"
proof (induction n arbitrary: k)
  case (Suc n)
  have "(lfsr_step ^^ 7) ((lfsr_step ^^ (7 * k)) 1) = (lfsr_step ^^ (7 * Suc k)) 1"
    by (simp add: funpow_add [symmetric, THEN fun_cong, unfolded comp_def] add.commute)
  with Suc [of "Suc k"] show ?case
    by (simp add: spec_RC_def upt_rec [of k])
qed simp

lemma funpow_small:
  fixes f :: "'a \<Rightarrow> 'a"
  shows "(f ^^ 2) x = f (f x)" "(f ^^ 3) x = f (f (f x))" "(f ^^ 4) x = f (f (f (f x)))"
    "(f ^^ 5) x = f (f (f (f (f x))))" "(f ^^ 6) x = f (f (f (f (f (f x)))))"
    "(f ^^ 7) x = f (f (f (f (f (f (f x))))))"
  by (simp_all add: numeral_eq_Suc)

lemma rc_list_numeral: "rc_list x (numeral k) = rc_word x # rc_list ((lfsr_step ^^ 7) x) (pred_numeral k)"
  by (simp add: numeral_eq_Suc)

lemma spec_RC_table: "map spec_RC [0..<24] = RC"
proof -
  have "rc_list 1 24 = RC"
    by (simp add: rc_list_numeral rc_word_def funpow_small lfsr_step_def upt_rec RC_def)
  with rc_list_map [of 0 24] show ?thesis by simp
qed

lemma bit_rotl:
  assumes "n < 64" "k < 64"
  shows "bit (rotl x n) k = bit x (if k < n then 64 - n + k else k - n)"
proof (cases "k < n")
  case False
  then have "\<not> bit x (64 - n + k)" using bit_imp_le_length [of x "64 - n + k"] assms by auto
  with False assms show ?thesis
    by (auto simp: rotl_def bit_or_iff bit_push_bit_iff bit_drop_bit_eq)
qed (use assms in \<open>simp add: rotl_def bit_or_iff bit_push_bit_iff bit_drop_bit_eq\<close>)

lemma rotl_word_rotl:
  assumes n: "n < 64"
  shows "rotl x n = word_rotl n x"
proof (rule bit_word_eqI)
  fix k assume "k < LENGTH(64)"
  then have k: "k < 64" by simp
  have "(k + (64 - n)) mod 64 = (if k < n then 64 - n + k else k - n)"
  proof (cases "k < n")
    case False
    then have "(k + (64 - n)) mod 64 = (k - n + 64) mod 64" using n by (intro arg_cong2 [where f = "(mod)"]) arith+
    also have "\<dots> = k - n" using k by simp
    finally show ?thesis using False by simp
  qed (use n in simp)
  with n k show "bit (rotl x n) k = bit (word_rotl n x) k"
    by (simp add: bit_rotl bit_word_rotl_iff)
qed

lemma word_rotl_0: "word_rotl 0 (x :: u64) = x"
  by (rule bit_word_eqI) (simp add: bit_word_rotl_iff)

lemma rho_offset_table:
  "map (\<lambda>k. rho_offset (k mod 5) (k div 5)) [0..<25] =
    [0, 1, 62, 28, 27, 36, 44, 6, 55, 20, 3, 10, 43, 25, 39, 41, 45, 15, 21, 8, 18, 2, 61, 56, 14]"
  by code_simp

lemmas rho_offsets = rho_offset_table [unfolded upt_25, simplified]

lemma theta_spec: "length st = 25 \<Longrightarrow> theta st = list_of (spec_theta (lanes_of st))"
  by (erule lanes25_cases) (simp add: theta_list Let_def list_of_def upt_25 spec_theta_def spec_column_def lanes_of_def rotl_word_rotl)

lemma rho_pi_spec: "length st = 25 \<Longrightarrow> rho_pi st = list_of (spec_pi (spec_rho (lanes_of st)))"
  by (erule lanes25_cases)
    (simp add: rho_pi_list list_of_def upt_25 spec_pi_def spec_rho_def lanes_of_def rotl_word_rotl rho_offsets word_rotl_0)

lemma chi_spec: "length st = 25 \<Longrightarrow> chi st = list_of (spec_chi (lanes_of st))"
  by (erule lanes25_cases) (simp add: chi_list list_of_def upt_25 spec_chi_def lanes_of_def)

section \<open>The code's permutation is the reference one\<close>

text \<open>Each step of the reference depends on the coordinates modulo 5 only.\<close>

definition periodic5 :: "lanes \<Rightarrow> bool" where
  "periodic5 A = (\<forall>x y. A x y = A (x mod 5) (y mod 5))"

lemma lanes_of_list_of: "periodic5 A \<Longrightarrow> lanes_of (list_of A) = A"
proof (intro ext)
  fix x y
  assume "periodic5 A"
  then have "A x y = A (x mod 5) (y mod 5)" unfolding periodic5_def by blast
  moreover have "x mod 5 + 5 * (y mod 5) < 25" using mod_less_divisor [of 5 x] mod_less_divisor [of 5 y] by linarith
  ultimately show "lanes_of (list_of A) x y = A x y"
    by (simp add: lanes_of_def list_of_def)
qed

lemma length_list_of [simp]: "length (list_of A) = 25"
  by (simp add: list_of_def)

lemma periodic5_lanes_of: "periodic5 (lanes_of st)"
  by (simp add: periodic5_def lanes_of_def)

lemma pi_mod5: "(x + 3 * y) mod 5 = (x mod 5 + 3 * (y mod 5)) mod (5::nat)"
  by (intro mod_add_cong mod_mult_cong) simp_all

lemma periodic5_at: "periodic5 A \<Longrightarrow> x mod 5 = x' mod 5 \<Longrightarrow> y mod 5 = y' mod 5 \<Longrightarrow> A x y = A x' y'"
  unfolding periodic5_def by metis

lemma periodic5_column: "periodic5 A \<Longrightarrow> x mod 5 = x' mod 5 \<Longrightarrow> spec_column A x = spec_column A x'"
  unfolding spec_column_def by (intro arg_cong2 [where f = "(XOR)"] periodic5_at) auto

lemma periodic5_theta: "periodic5 A \<Longrightarrow> periodic5 (spec_theta A)"
  unfolding periodic5_def [of "spec_theta A"] spec_theta_def
  by (intro allI arg_cong2 [where f = "(XOR)"] arg_cong [where f = "word_rotl 1"] periodic5_at periodic5_column)
    (auto simp: mod_simps)

lemma periodic5_rho: "periodic5 A \<Longrightarrow> periodic5 (spec_rho A)"
  unfolding periodic5_def [of "spec_rho A"] spec_rho_def
  by (intro allI arg_cong2 [where f = "word_rotl"] periodic5_at) auto

lemma periodic5_pi: "periodic5 A \<Longrightarrow> periodic5 (spec_pi A)"
  unfolding periodic5_def [of "spec_pi A"] spec_pi_def
  by (intro allI periodic5_at) (assumption, rule pi_mod5, simp)

lemma periodic5_chi: "periodic5 A \<Longrightarrow> periodic5 (spec_chi A)"
  unfolding periodic5_def [of "spec_chi A"] spec_chi_def
  by (intro allI arg_cong2 [where f = "(XOR)"] arg_cong2 [where f = "(AND)"] arg_cong [where f = "NOT"] periodic5_at)
    (auto simp: mod_simps)

lemma periodic5_iota: "periodic5 A \<Longrightarrow> periodic5 (spec_iota r A)"
  unfolding periodic5_def [of "spec_iota r A"] spec_iota_def
  by (auto intro!: arg_cong2 [where f = "(XOR)"] periodic5_at)

lemmas periodic5_steps = periodic5_theta periodic5_rho periodic5_pi periodic5_chi periodic5_iota periodic5_lanes_of

lemma iota_spec: "r < 24 \<Longrightarrow> length st = 25 \<Longrightarrow> st[0 := st ! 0 XOR RC ! r] = list_of (spec_iota r (lanes_of st))"
proof -
  assume r: "r < 24" and st: "length st = 25"
  have "RC ! r = spec_RC r" using r spec_RC_table by (metis add_0 diff_zero nth_map_upt)
  with st show ?thesis
    by (elim lanes25_cases) (simp add: list_of_def upt_25 spec_iota_def lanes_of_def)
qed

lemma keccak_round_spec:
  assumes "r < 24" "length st = 25"
  shows "keccak_round r st = list_of (spec_round r (lanes_of st))"
  using assms
  by (simp add: keccak_round_def Let_def theta_spec rho_pi_spec chi_spec iota_spec spec_round_def
      lanes_of_list_of periodic5_steps)

lemma keccakf_fold:
  assumes "length st = 25" "\<forall>r\<in>set rs. r < 24"
  shows "fold keccak_round rs st = list_of (fold spec_round rs (lanes_of st)) \<and> periodic5 (fold spec_round rs (lanes_of st))"
  using assms
proof (induction rs arbitrary: st)
  case Nil
  have "list_of (lanes_of st) = st" using Nil(1)
    by (elim lanes25_cases) (simp add: list_of_def upt_25 lanes_of_def)
  then show ?case by (simp add: periodic5_lanes_of)
next
  case (Cons r rs)
  let ?A = "spec_round r (lanes_of st)"
  have "periodic5 ?A" by (simp add: spec_round_def periodic5_steps)
  with Cons.IH [of "list_of ?A"] Cons.prems show ?case
    by (simp add: keccak_round_spec lanes_of_list_of)
qed

lemma keccakf_is_keccak_f1600:
  assumes "length st = 25"
  shows "keccakf st = list_of (spec_keccakf (lanes_of st))"
  using keccakf_fold [OF assms, of "[0..<24]"] by (simp add: keccakf_def spec_keccakf_def)

section \<open>The hash is the sponge over the padded message\<close>

text \<open>Multi-rate padding with the original Keccak suffix: a one bit, zeros, a one bit.\<close>

definition pad_bytes :: "nat \<Rightarrow> u8 list" where
  "pad_bytes q = (if q = 1 then [0x81] else 0x01 # replicate (q - 2) 0 @ [0x80])"

definition pad101 :: "u8 list \<Rightarrow> u8 list" where
  "pad101 msg = msg @ pad_bytes (rate - length msg mod rate)"

definition sponge_absorb :: "(u64 list \<Rightarrow> u64 list) \<Rightarrow> u64 list \<Rightarrow> u8 list list \<Rightarrow> u64 list" where
  "sponge_absorb perm st blocks = foldl (\<lambda>st b. perm (absorb_block st b)) st blocks"

definition sponge_hash :: "(u64 list \<Rightarrow> u64 list) \<Rightarrow> u8 list \<Rightarrow> u8 list" where
  "sponge_hash perm msg =
     take 32 (concat (map store64 (sponge_absorb perm (replicate 25 0) (chunks rate (pad101 msg)))))"

lemma length_absorb_block [simp]: "length (absorb_block st b) = length st"
proof -
  have "length (fold (\<lambda>i st. st[i := st ! i XOR load64 (drop (8 * i) b)]) is st) = length st" for "is"
    by (induction "is" arbitrary: st) auto
  then show ?thesis by (simp add: absorb_block_def)
qed

lemma absorb_block_take: "absorb_block st (take rate b) = absorb_block st b"
  unfolding absorb_block_def
  by (intro fold_cong refl) (auto simp: rate_def load64_def drop_take take_take min_def)

lemma length_pad_bytes: "0 < q \<Longrightarrow> length (pad_bytes q) = q"
  by (auto simp: pad_bytes_def)

lemma pad_last_pad_bytes:
  assumes "length t < rate"
  shows "pad_last t = t @ pad_bytes (rate - length t)"
proof (cases "length t = rate - 1")
  case True
  then show ?thesis
    by (simp add: pad_last_def pad_bytes_def rate_def Let_def nth_append list_update_append)
next
  case False
  with assms obtain k where k: "rate - length t = Suc (Suc k)"
    by (metis Suc_diff_Suc Suc_lessI diff_Suc_1 zero_less_diff not0_implies_Suc less_imp_Suc_add)
  then have "replicate (rate - length t) (0 :: u8) = 0 # replicate k 0 @ [0]"
    by (simp add: replicate_append_same)
  moreover have "rate - 1 = length t + Suc k" using k by linarith
  ultimately show ?thesis using k
    by (simp add: pad_last_def pad_bytes_def Let_def nth_append list_update_append)
qed

lemma absorb_full_sponge:
  "case absorb_full st inp of (st', tail) \<Rightarrow> length tail < rate \<and>
     keccakf (absorb_block st' (pad_last tail)) =
       sponge_absorb keccakf st (chunks rate (inp @ pad_bytes (rate - length inp mod rate)))"
proof (induction st inp rule: absorb_full.induct)
  case (1 st inp)
  show ?case
  proof (cases "length inp \<ge> rate")
    case True
    let ?p = "pad_bytes (rate - length inp mod rate)"
    have "length (drop rate inp) mod rate = length inp mod rate"
      using True by (simp add: le_mod_geq)
    moreover have "chunks rate (inp @ ?p) = take rate inp # chunks rate (drop rate inp @ ?p)"
      using True chunks_append_block [of "take rate inp" rate "drop rate inp @ ?p"]
      by (simp add: rate_def) (metis append_assoc append_take_drop_id)
    ultimately show ?thesis using 1 [OF True] True
      by (simp add: absorb_full.simps [of st inp] sponge_absorb_def absorb_block_take)
  next
    case False
    then have "length inp < rate" by simp
    moreover have "chunks rate (inp @ pad_bytes (rate - length inp)) = [inp @ pad_bytes (rate - length inp)]"
      using chunks_append_block [of "inp @ pad_bytes (rate - length inp)" rate "[]"] \<open>length inp < rate\<close>
      by (simp add: length_pad_bytes)
    ultimately show ?thesis
      by (simp add: absorb_full.simps [of st inp] sponge_absorb_def pad_last_pad_bytes)
  qed
qed

lemma keccak256_sponge: "keccak256 msg = sponge_hash keccakf msg"
  using absorb_full_sponge [of "replicate 25 0" msg]
  by (simp add: keccak256_def sponge_hash_def pad101_def split: prod.splits)

text \<open>What a sponge relies on: a permutation of 25 lanes.\<close>

locale permutation25 =
  fixes perm :: "u64 list \<Rightarrow> u64 list"
  assumes perm_length: "length st = 25 \<Longrightarrow> length (perm st) = 25"
begin

lemma length_sponge_absorb: "length st = 25 \<Longrightarrow> length (sponge_absorb perm st bs) = 25"
  unfolding sponge_absorb_def by (induction bs arbitrary: st) (auto simp: perm_length)

lemma length_sponge_hash: "length (sponge_hash perm msg) = 32"
proof -
  have "length (concat (map store64 xs)) = 8 * length xs" for xs
    by (induction xs) (auto simp: store64_def)
  then show ?thesis by (simp add: sponge_hash_def length_sponge_absorb)
qed

lemma sponge_hash_cong:
  assumes "\<And>st. length st = 25 \<Longrightarrow> perm st = perm' st"
  shows "sponge_hash perm msg = sponge_hash perm' msg"
proof -
  have "length st = 25 \<Longrightarrow> sponge_absorb perm st bs = sponge_absorb perm' st bs" for st bs
    unfolding sponge_absorb_def by (induction bs arbitrary: st) (auto simp: assms [symmetric] perm_length)
  then show ?thesis by (simp add: sponge_hash_def)
qed

end

interpretation kf: permutation25 keccakf
  by unfold_locales (simp add: keccakf_is_keccak_f1600)

interpretation reference: permutation25 "\<lambda>st. list_of (spec_keccakf (lanes_of st))"
  by unfold_locales simp

definition keccak256_reference :: "u8 list \<Rightarrow> u8 list" where
  "keccak256_reference = sponge_hash (\<lambda>st. list_of (spec_keccakf (lanes_of st)))"

lemma keccak256_is_reference: "keccak256 msg = keccak256_reference msg"
  unfolding keccak256_sponge keccak256_reference_def
  by (rule kf.sponge_hash_cong) (rule keccakf_is_keccak_f1600)

lemma length_keccak256 [simp]: "length (keccak256 msg) = 32"
  by (simp add: keccak256_sponge kf.length_sponge_hash)

section \<open>The hash is Keccak-256\<close>

text \<open>C9. The permutation with its unrolled index tables is Keccak-f[1600]: on every state of 25 lanes it is
  the composition of 24 rounds of the five step mappings, whose offsets and round constants the reference computes
  (the rotation walk and the LFSR).\<close>

theorem keccakf_correct:
  assumes "length st = 25"
  shows "keccakf st = list_of (spec_keccakf (lanes_of st))"
  by (rule keccakf_is_keccak_f1600) (rule assms)

lemma keccakf_correct_witness:
  "keccakf (replicate 25 0) = list_of (spec_keccakf (lanes_of (replicate 25 0)))"
  by (rule keccakf_correct) simp

text \<open>C31. The hash of every message, in blocks with the last one padded in place, is the sponge over
  the reference permutation with the original padding, 32 bytes long.\<close>

theorem keccak256_correct: "keccak256 msg = keccak256_reference msg \<and> length (keccak256 msg) = 32"
  by (intro conjI keccak256_is_reference length_keccak256)

end
