(* ===== verification/Address.thy ===== *)
theory Address
  imports Base58 Keccak
begin

text \<open>
  \<^verbatim>\<open>monero_addr::valid\<close> of \<^verbatim>\<open>src/address_check.cpp\<close>: base58, the varint network tag, the payload
  length the tag asks for, and the first four bytes of the Keccak-256 hash as a checksum.
\<close>

section \<open>The check\<close>

text \<open>\<^verbatim>\<open>{standard, subaddress, integrated}\<close>, \<open>None\<close> for an unknown network.\<close>

definition addr_prefixes :: "string \<Rightarrow> (u64 \<times> u64 \<times> u64) option" where
  "addr_prefixes network =
     (if network = ''mainnet'' \<or> network = ''regtest'' then Some (18, 42, 19)
      else if network = ''testnet'' then Some (53, 63, 54)
      else if network = ''stagenet'' then Some (24, 36, 25)
      else None)"

definition valid :: "string \<Rightarrow> string \<Rightarrow> bool" where
  "valid address network =
     (case addr_prefixes network of
        None \<Rightarrow> False
      | Some (std_p, sub_p, int_p) \<Rightarrow>
          if length address < 90 then False
          else case base58Decode address of
            None \<Rightarrow> False
          | Some b \<Rightarrow>
              if length b < 4 then False
              else case readVarint b of
                None \<Rightarrow> False
              | Some (pref, n) \<Rightarrow>
                  let body = length b - 4 in
                  if pref = std_p \<or> pref = sub_p then
                    (if body \<noteq> n + 64 then False else take 4 (keccak256 (take body b)) = drop body b)
                  else if pref = int_p then
                    (if body \<noteq> n + 72 then False else take 4 (keccak256 (take body b)) = drop body b)
                  else False)"

section \<open>The address format\<close>

datatype addr_kind = Standard | Subaddress | Integrated

fun payload_length :: "addr_kind \<Rightarrow> nat" where
  "payload_length Standard = 64"
| "payload_length Subaddress = 64"
| "payload_length Integrated = 72"

datatype net_class = Main | Test | Stage

definition net_class_of :: "string \<Rightarrow> net_class option" where
  "net_class_of network =
     (if network = ''mainnet'' \<or> network = ''regtest'' then Some Main
      else if network = ''testnet'' then Some Test
      else if network = ''stagenet'' then Some Stage
      else None)"

fun addr_tag :: "net_class \<Rightarrow> addr_kind \<Rightarrow> nat" where
  "addr_tag Main Standard = 18" | "addr_tag Main Subaddress = 42" | "addr_tag Main Integrated = 19"
| "addr_tag Test Standard = 53" | "addr_tag Test Subaddress = 63" | "addr_tag Test Integrated = 54"
| "addr_tag Stage Standard = 24" | "addr_tag Stage Subaddress = 36" | "addr_tag Stage Integrated = 25"

definition address_bytes :: "u8 list \<Rightarrow> u8 list" where
  "address_bytes body = body @ take 4 (keccak256_reference body)"

definition make_address :: "net_class \<Rightarrow> addr_kind \<Rightarrow> u8 list \<Rightarrow> string" where
  "make_address c k payload = base58Encode (address_bytes (write_varint (addr_tag c k) @ payload))"

lemma addr_tag_bounds: "18 \<le> addr_tag c k \<and> addr_tag c k \<le> 63"
  by (cases "(c, k)" rule: addr_tag.cases) simp_all

lemma addr_tag_inj: "addr_tag c k = addr_tag c' k' \<Longrightarrow> c = c' \<and> k = k'"
  by (cases "(c, k)" rule: addr_tag.cases; cases "(c', k')" rule: addr_tag.cases) simp_all

lemma word_addr_tag_inj: "word_of_nat (addr_tag c k) = (word_of_nat (addr_tag c' k') :: u64) \<Longrightarrow> c = c' \<and> k = k'"
proof -
  assume "word_of_nat (addr_tag c k) = (word_of_nat (addr_tag c' k') :: u64)"
  then have "unat (word_of_nat (addr_tag c k) :: u64) = unat (word_of_nat (addr_tag c' k') :: u64)" by simp
  moreover have "addr_tag c k < 2 ^ 64" "addr_tag c' k' < 2 ^ 64"
    using addr_tag_bounds [of c k] addr_tag_bounds [of c' k'] by auto
  ultimately show ?thesis by (simp add: unat_of_nat addr_tag_inj)
qed

lemma addr_prefixes_class:
  "addr_prefixes network = map_option (\<lambda>c. (word_of_nat (addr_tag c Standard), word_of_nat (addr_tag c Subaddress),
     word_of_nat (addr_tag c Integrated))) (net_class_of network)"
  by (simp add: addr_prefixes_def net_class_of_def)

section \<open>Varints and their prefix\<close>

lemma varint_loop_append:
  "varint_loop b v n shift = Some (w, m) \<Longrightarrow> varint_loop (b @ c) v n shift = Some (w, m)"
proof (induction b v n shift rule: varint_loop.induct)
  case (1 b v n shift)
  from 1(2) have n: "n < length b \<and> shift < 64" by (subst (asm) varint_loop.simps) (auto split: if_splits)
  then have nth: "(b @ c) ! n = b ! n" by (simp add: nth_append)
  show ?case
  proof (cases "b ! n AND 0x80 = 0")
    case True
    with 1(2) n nth show ?thesis by (simp add: varint_loop.simps [of _ v] Let_def)
  next
    case False
    let ?v = "v OR push_bit shift (ucast (b ! n AND 0x7f))"
    have "varint_loop b ?v (n + 1) (shift + 7) = Some (w, m)"
      using 1(2) n False by (subst (asm) varint_loop.simps) (simp add: Let_def)
    with 1(1) [OF n refl False] have "varint_loop (b @ c) ?v (n + 1) (shift + 7) = Some (w, m)" by simp
    with n nth False show ?thesis by (subst varint_loop.simps) (simp add: Let_def)
  qed
qed

lemma varint_loop_take:
  "varint_loop b v n shift = Some (w, m) \<Longrightarrow> varint_loop (take m b) v n shift = Some (w, m)"
proof (induction b v n shift rule: varint_loop.induct)
  case (1 b v n shift)
  from 1(2) have n: "n < length b \<and> shift < 64" by (subst (asm) varint_loop.simps) (auto split: if_splits)
  have m: "n < m" "m \<le> length b" using varint_loop_bounds [OF 1(2)] by auto
  then have nth: "take m b ! n = b ! n" "n < length (take m b)" by auto
  show ?case
  proof (cases "b ! n AND 0x80 = 0")
    case True
    with 1(2) n nth show ?thesis by (simp add: varint_loop.simps [of _ v] Let_def)
  next
    case False
    let ?v = "v OR push_bit shift (ucast (b ! n AND 0x7f))"
    have "varint_loop b ?v (n + 1) (shift + 7) = Some (w, m)"
      using 1(2) n False by (subst (asm) varint_loop.simps) (simp add: Let_def)
    with 1(1) [OF n refl False] have "varint_loop (take m b) ?v (n + 1) (shift + 7) = Some (w, m)" by simp
    with n nth False show ?thesis by (subst varint_loop.simps) (simp add: Let_def)
  qed
qed

lemma readVarint_append: "readVarint b = Some r \<Longrightarrow> readVarint (b @ c) = Some r"
  by (cases r) (simp add: readVarint_def varint_loop_append)

lemma readVarint_take: "readVarint b = Some (v, n) \<Longrightarrow> readVarint (take n b) = Some (v, n)"
  by (simp add: readVarint_def varint_loop_take)

section \<open>What the check accepts\<close>

text \<open>The decoded form of an accepted address: a header that reads as the tag, the payload, the checksum.\<close>

definition well_formed :: "net_class \<Rightarrow> addr_kind \<Rightarrow> u8 list \<Rightarrow> bool" where
  "well_formed c k b = (\<exists>hdr payload. b = address_bytes (hdr @ payload) \<and>
     readVarint hdr = Some (word_of_nat (addr_tag c k), length hdr) \<and> length payload = payload_length k)"

definition accepts :: "net_class \<Rightarrow> addr_kind \<Rightarrow> u8 list \<Rightarrow> bool" where
  "accepts c k b = (4 \<le> length b \<and> (\<exists>n. readVarint b = Some (word_of_nat (addr_tag c k), n) \<and>
     length b - 4 = n + payload_length k \<and> take 4 (keccak256 (take (length b - 4) b)) = drop (length b - 4) b))"

lemma accepts_well_formed: "accepts c k b = well_formed c k b"
proof
  assume "accepts c k b"
  then obtain n where a: "4 \<le> length b" "readVarint b = Some (word_of_nat (addr_tag c k), n)"
    "length b - 4 = n + payload_length k" "take 4 (keccak256 (take (length b - 4) b)) = drop (length b - 4) b"
    by (auto simp: accepts_def)
  define hdr payload where "hdr = take n b" and "payload = drop n (take (length b - 4) b)"
  have body: "hdr @ payload = take (length b - 4) b"
    using a(3) by (simp add: hdr_def payload_def drop_take) (metis diff_add_inverse le_add1 take_add)
  have "b = address_bytes (hdr @ payload)"
    unfolding address_bytes_def body keccak256_is_reference [symmetric] a(4) by simp
  moreover have "length hdr = n" using a(3) by (simp add: hdr_def)
  moreover have "length payload = payload_length k" using a(3) by (simp add: payload_def)
  ultimately show "well_formed c k b"
    using readVarint_take [OF a(2)] unfolding well_formed_def hdr_def by metis
next
  assume "well_formed c k b"
  then obtain hdr payload where w: "b = address_bytes (hdr @ payload)"
    "readVarint hdr = Some (word_of_nat (addr_tag c k), length hdr)" "length payload = payload_length k"
    by (auto simp: well_formed_def)
  have len: "length b = length hdr + payload_length k + 4"
    by (simp add: w address_bytes_def flip: keccak256_is_reference)
  then have "take (length b - 4) b = hdr @ payload"
    and "drop (length b - 4) b = take 4 (keccak256 (hdr @ payload))"
    by (simp_all add: w address_bytes_def flip: keccak256_is_reference)
  moreover have "readVarint b = Some (word_of_nat (addr_tag c k), length hdr)"
    using readVarint_append [OF w(2)] by (simp add: w(1) address_bytes_def)
  ultimately show "accepts c k b" using len by (auto simp: accepts_def)
qed

lemma valid_accepts:
  "valid a network \<longleftrightarrow> 90 \<le> length a \<and>
     (\<exists>c k b. net_class_of network = Some c \<and> base58Decode a = Some b \<and> accepts c k b)"
  (is "?l \<longleftrightarrow> ?r")
proof
  assume ?l
  then obtain c b pref n where v: "net_class_of network = Some c" "90 \<le> length a" "base58Decode a = Some b"
    "4 \<le> length b" "readVarint b = Some (pref, n)"
    and p: "(pref = word_of_nat (addr_tag c Standard) \<or> pref = word_of_nat (addr_tag c Subaddress)) \<and> length b - 4 = n + 64 \<or>
      pref = word_of_nat (addr_tag c Integrated) \<and> length b - 4 = n + 72"
    and h: "take 4 (keccak256 (take (length b - 4) b)) = drop (length b - 4) b"
    by (auto simp: valid_def addr_prefixes_class Let_def not_less split: option.splits if_splits)
  from p obtain k where "pref = word_of_nat (addr_tag c k)" "length b - 4 = n + payload_length k"
    by (metis payload_length.simps)
  with v h have "accepts c k b" by (auto simp: accepts_def)
  with v show ?r by blast
next
  assume ?r
  then obtain c k b n where v: "net_class_of network = Some c" "90 \<le> length a" "base58Decode a = Some b"
    "4 \<le> length b" "readVarint b = Some (word_of_nat (addr_tag c k), n)" "length b - 4 = n + payload_length k"
    "take 4 (keccak256 (take (length b - 4) b)) = drop (length b - 4) b"
    by (auto simp: accepts_def)
  have "word_of_nat (addr_tag c Integrated) = (word_of_nat (addr_tag c k') :: u64) \<Longrightarrow> k' = Integrated" for k'
    using word_addr_tag_inj by metis
  with v show ?l
    by (cases k) (auto simp: valid_def addr_prefixes_class Let_def)
qed

lemma valid_well_formed:
  "valid a network \<longleftrightarrow> 90 \<le> length a \<and>
     (\<exists>c k b. net_class_of network = Some c \<and> base58Decode a = Some b \<and> well_formed c k b)"
  by (simp add: valid_accepts accepts_well_formed)

section \<open>Lengths\<close>

lemma length_concat_encode: "length (base58Encode bs) = 11 * (length bs div 8) + ENC_SIZES ! (length bs mod 8)"
proof (induction "8 :: nat" bs rule: chunks.induct)
  case (1 bs)
  show ?case
  proof (cases "8 \<le> length bs")
    case True
    then have "bs \<noteq> []" by auto
    then have e: "base58Encode bs = encode_block (take 8 bs) @ base58Encode (drop 8 bs)"
      by (simp add: base58Encode_def chunks_unfold [of bs 8])
    have "length (encode_block (take 8 bs)) = 11" using True by (simp add: ENC_SIZES_def)
    with 1 \<open>bs \<noteq> []\<close> True show ?thesis by (simp add: e le_div_geq le_mod_geq)
  next
    case False
    then show ?thesis
      by (cases "bs = []") (simp_all add: base58Encode_def chunks_single ENC_SIZES_def)
  qed
qed

lemma base58Decode_length:
  "base58Decode s = Some b \<Longrightarrow> length s = 11 * (length b div 8) + ENC_SIZES ! (length b mod 8)"
proof (induction "11 :: nat" s arbitrary: b rule: chunks.induct)
  case (1 s)
  show ?case
  proof (cases "s = []")
    case True
    with 1(2) show ?thesis by (simp add: base58Decode_chunks ENC_SIZES_def)
  next
    case False
    then have "chunks 11 s = take 11 s # chunks 11 (drop 11 s)" by (simp add: chunks_unfold)
    with 1(2) obtain c d where cd: "decodeBlock (take 11 s) = Some c" "base58Decode (drop 11 s) = Some d" "b = c @ d"
      by (auto simp: base58Decode_chunks split: option.splits)
    have c: "length (take 11 s) = ENC_SIZES ! length c" "1 \<le> length c" "length c \<le> 8"
      using cd(1) by (auto simp: decodeBlock_iff)
    have IH: "length (drop 11 s) = 11 * (length d div 8) + ENC_SIZES ! (length d mod 8)"
      using 1(1) [OF _ cd(2)] False by simp
    show ?thesis
    proof (cases "length s < 11")
      case True
      then have "d = []" using cd(2) by (simp add: base58Decode_chunks)
      moreover have "length c \<noteq> 8" using c(1) True by (auto simp: ENC_SIZES_def)
      ultimately show ?thesis using c True cd(3) by simp
    next
      case long: False
      have "ENC_SIZES ! k = 11 \<Longrightarrow> k \<le> 8 \<Longrightarrow> k = 8" for k
        using enc_size_ENC_SIZES [of k] enc_size_ENC_SIZES [of 8] by (simp add: ENC_SIZES_def)
      then have "length c = 8" using c long by simp
      moreover have "(8 + length d) div 8 = Suc (length d div 8)" by simp
      ultimately show ?thesis using IH long cd(3) by simp
    qed
  qed
qed

lemma well_formed_length:
  "well_formed c k b \<Longrightarrow> 69 \<le> length b \<and> length b \<le> 86"
proof -
  assume "well_formed c k b"
  then obtain hdr payload where w: "b = address_bytes (hdr @ payload)"
    "readVarint hdr = Some (word_of_nat (addr_tag c k), length hdr)" "length payload = payload_length k"
    by (auto simp: well_formed_def)
  then have "length b = length hdr + payload_length k + 4"
    by (simp add: address_bytes_def flip: keccak256_is_reference)
  moreover have "1 \<le> length hdr" "length hdr \<le> 10" using readVarint_bounds [OF w(2)] by auto
  ultimately show ?thesis by (cases k) auto
qed

lemma valid_length: "valid a network \<Longrightarrow> 95 \<le> length a \<and> length a \<le> 119"
proof -
  assume "valid a network"
  then obtain c k b where b: "base58Decode a = Some b" "well_formed c k b" by (auto simp: valid_well_formed)
  from well_formed_length [OF b(2)] have "length b \<in> {69..86}" by simp
  moreover have "\<forall>n\<in>{69..86}. 95 \<le> 11 * (n div 8) + ENC_SIZES ! (n mod 8) \<and> 11 * (n div 8) + ENC_SIZES ! (n mod 8) \<le> 119"
    by code_simp
  ultimately show ?thesis using base58Decode_length [OF b(1)] by simp
qed

lemma valid_chars: "valid a network \<Longrightarrow> set a \<subseteq> set ALPHABET"
  using base58Decode_chars by (auto simp: valid_well_formed)

lemma valid_no_nul: "valid a network \<Longrightarrow> CHR 0x00 \<notin> set a"
  using valid_chars NUL_notin_ALPHABET by blast

section \<open>The canonical address is accepted, and is not the only one\<close>

lemma readVarint_tag: "readVarint (write_varint (addr_tag c k)) = Some (word_of_nat (addr_tag c k), length (write_varint (addr_tag c k)))"
  using readVarint_write [of "addr_tag c k" "[]"] addr_tag_bounds [of c k] by simp

lemma write_varint_tag: "write_varint (addr_tag c k) = [word_of_nat (addr_tag c k)]"
  using addr_tag_bounds [of c k] by (subst write_varint.simps) simp

lemma well_formed_canonical:
  "length payload = payload_length k \<Longrightarrow> well_formed c k (address_bytes (write_varint (addr_tag c k) @ payload))"
  unfolding well_formed_def using readVarint_tag by blast

lemma length_make_address:
  "length payload = payload_length k \<Longrightarrow> length (make_address c k payload) = (if k = Integrated then 106 else 95)"
  by (cases k) (simp_all add: make_address_def length_concat_encode address_bytes_def write_varint_tag ENC_SIZES_def
      flip: keccak256_is_reference)

lemma valid_canonical:
  assumes "net_class_of network = Some c" "length payload = payload_length k"
  shows "valid (make_address c k payload) network"
  using assms well_formed_canonical [OF assms(2)] length_make_address [OF assms(2)]
  unfolding valid_well_formed make_address_def by (auto simp: base58_roundtrip)

lemma first_block_value:
  assumes "unat (hd b) \<le> 63" "length b = 8"
  shows "bytes_value b + 2 ^ 64 < 58 ^ 11"
proof -
  obtain x r where b: "b = x # r" "length r = 7" using assms(2) by (cases b) auto
  have "from_digits 256 (map unat b) < 256 ^ 7 * 64"
  proof -
    have "from_digits 256 (map unat r) < 256 ^ 7"
      using bytes_value_less [of r] b(2) by (simp add: bytes_value_def)
    moreover have "unat x * 256 ^ 7 \<le> 63 * 256 ^ 7" using assms(1) b(1) by (intro mult_right_mono) auto
    ultimately show ?thesis using b by (simp add: from_digits_Cons)
  qed
  then show ?thesis by (simp add: bytes_value_def)
qed

lemma canonical_has_alias:
  assumes "length payload = payload_length k"
  shows "\<exists>a'. a' \<noteq> make_address c k payload \<and> length a' = length (make_address c k payload) \<and>
    base58Decode a' = base58Decode (make_address c k payload)"
proof -
  define b where "b = address_bytes (write_varint (addr_tag c k) @ payload)"
  define s where "s = encode_block (take 8 b)"
  let ?ds = "to_digits 58 11 (bytes_value (take 8 b))"
  have len: "8 < length b" using assms
    by (cases k) (simp_all add: b_def address_bytes_def write_varint_tag flip: keccak256_is_reference)
  then have e: "make_address c k payload = s @ base58Encode (drop 8 b)"
    unfolding make_address_def b_def [symmetric] s_def base58Encode_def
    by (subst chunks_unfold) auto
  have "hd (take 8 b) = word_of_nat (addr_tag c k)" by (simp add: b_def address_bytes_def write_varint_tag)
  then have small: "bytes_value (take 8 b) + 2 ^ 64 < 58 ^ 11"
    using len addr_tag_bounds [of c k] by (intro first_block_value) (auto simp: unat_of_nat)
  then have val: "from_digits 58 ?ds = bytes_value (take 8 b)" by (simp add: b58_facts(1))
  have ls: "length s = 11" using len by (simp add: s_def ENC_SIZES_def)
  have "block_digits s = Some ?ds"
    using len unfolding s_def encode_block_def
    by (subst block_digits_map) (use b58_facts(2) in \<open>auto simp: ENC_SIZES_def\<close>)
  with ls small val have al: "alias_block ?ds \<noteq> s" "length (alias_block ?ds) = 11"
    "base58Decode (alias_block ?ds @ q) = base58Decode (s @ q)" for q
    using decodeBlock_alias(2, 3) [of s ?ds] base58Decode_alias [of s ?ds "[]" q] by simp_all
  show ?thesis
    using al by (intro exI [of _ "alias_block ?ds @ base58Encode (drop 8 b)"]) (simp add: e ls)
qed

section \<open>Address validation\<close>

text \<open>C8. An address is valid for a network exactly when it is at least 90 characters of base58 whose bytes are a
  header reading as one of that network's three tags, that kind's payload, and the first four bytes of the Keccak-256
  of both.\<close>

theorem valid_iff_format:
  "valid a network \<longleftrightarrow> 90 \<le> length a \<and>
     (\<exists>c k b. net_class_of network = Some c \<and> base58Decode a = Some b \<and> well_formed c k b)"
  by (rule valid_well_formed)

text \<open>Every address made for a network (a tag, a payload of the kind's length, the checksum, base58) is valid
  there.\<close>

theorem made_address_valid:
  assumes "net_class_of network = Some c" "length payload = payload_length k"
  shows "valid (make_address c k payload) network"
  using valid_canonical [OF assms] .

lemma made_address_valid_witness:
  "valid (make_address Stage Integrated (replicate 72 7)) ''stagenet''"
  by (rule made_address_valid) (simp_all add: net_class_of_def)

text \<open>Networks are kept apart: an address valid for two networks is so only because they share
  their prefixes (mainnet and regtest).\<close>

theorem valid_networks_apart:
  assumes "valid a network" "valid a network'"
  shows "net_class_of network = net_class_of network'"
proof -
  obtain c k b where 1: "net_class_of network = Some c" "base58Decode a = Some b" "accepts c k b"
    using assms(1) by (auto simp: valid_accepts)
  obtain c' k' b' where 2: "net_class_of network' = Some c'" "base58Decode a = Some b'" "accepts c' k' b'"
    using assms(2) by (auto simp: valid_accepts)
  with 1 have "word_of_nat (addr_tag c k) = (word_of_nat (addr_tag c' k') :: u64)"
    by (auto simp: accepts_def)
  with 1 2 word_addr_tag_inj show ?thesis by metis
qed

lemma valid_networks_apart_witness:
  "net_class_of ''mainnet'' = net_class_of ''regtest'' \<and> \<not> valid (make_address Main Standard (replicate 64 1)) ''testnet''"
proof -
  let ?a = "make_address Main Standard (replicate 64 1)"
  have v: "valid ?a ''mainnet''" "valid ?a ''regtest''"
    by (rule valid_canonical; simp add: net_class_of_def)+
  show ?thesis
    using valid_networks_apart [OF v] valid_networks_apart [OF v(1), of "''testnet''"] by (auto simp: net_class_of_def)
qed

text \<open>A valid address has 95 to 119 characters, all of the base58 alphabet.\<close>

theorem valid_address_length:
  assumes "valid a network"
  shows "95 \<le> length a \<and> length a \<le> 119 \<and> set a \<subseteq> set ALPHABET"
  using valid_length [OF assms] valid_chars [OF assms] by simp

lemma valid_address_length_witness: "95 \<le> length (make_address Test Subaddress (replicate 64 3))"
  using valid_address_length [OF valid_canonical [of "''testnet''" Test "replicate 64 3" Subaddress]]
  by (simp add: net_class_of_def)

text \<open>C32. An address does not have one spelling: for every address the wallets make there is another string of
  the same length, decoding to the same bytes and as valid, since an eleven-character block is read modulo
  \<open>2 ^ 64\<close> without the range check shorter blocks get.\<close>

theorem address_has_second_spelling:
  assumes "net_class_of network = Some c" "length payload = payload_length k"
  shows "\<exists>a'. a' \<noteq> make_address c k payload \<and> length a' = length (make_address c k payload) \<and>
    base58Decode a' = base58Decode (make_address c k payload) \<and> valid a' network"
  using canonical_has_alias [OF assms(2), of c] valid_canonical [OF assms] unfolding valid_accepts by metis

lemma address_has_second_spelling_witness:
  "\<exists>a'. a' \<noteq> make_address Main Standard (replicate 64 1) \<and> valid a' ''mainnet''"
  using address_has_second_spelling [of "''mainnet''" Main "replicate 64 1" Standard] by (auto simp: net_class_of_def)

end
