(* ===== verification/Runtime.thy ===== *)
theory Runtime
  imports Engine Address
begin

text \<open>
  What every operation of \<^verbatim>\<open>WalletRuntime\<close> uses: the state change with its event, the lock of the
  node's settings, the send gate, the password check and the pause of wallet2's refresh.
\<close>

definition kWaitingForTor :: string where
  "kWaitingForTor = ''waiting_for_tor: sends go only over Tor, once the wallet has caught up and moved to it''"

definition kNoRoute :: string where
  "kNoRoute = ''nowhere''"

definition kCatchUpGiveUp :: int where
  "kCatchUpGiveUp = 90 * 10 ^ 9"

definition kTorAskEvery :: int where
  "kTorAskEvery = 60 * 10 ^ 9"

text \<open>\<^verbatim>\<open>fs::path(dir) / name\<close>.\<close>

definition path_join :: "string \<Rightarrow> string \<Rightarrow> string" where
  "path_join d n =
     (if n \<noteq> [] \<and> hd n = CHR ''/'' then n
      else if d = [] \<or> last d = CHR ''/'' then d @ n
      else d @ ''/'' @ n)"

definition walletPath :: "rt \<Rightarrow> string \<Rightarrow> string" where
  "walletPath s name = path_join (m_walletsDir s) name"

definition setWalletsDir :: "string \<Rightarrow> unit run" where
  "setWalletsDir dir = with_state (modM (\<lambda>s. s\<lparr>m_walletsDir := dir\<rparr>))"

definition statusLocked :: "world \<Rightarrow> rt \<Rightarrow> json" where
  "statusLocked W s = JObj [
     (''state'', JStr (stateName (m_state s))), (''wallet'', JStr (m_walletName s)),
     (''network'', JStr (m_network s)), (''address'', JStr (m_primaryAddress s)),
     (''lastError'', JStr (m_lastError s)), (''libraryVersion'', JStr (w_version W)),
     (''torUse'', JStr (m_torUse s)), (''route'', JStr (routeName (m_route s))),
     (''onTor'', JBool (m_route s = Tor)),
     (''waitingForTor'', JBool (m_route s = CatchUp \<or> m_route s = WaitingForTor))]"

definition setState :: "world \<Rightarrow> state \<Rightarrow> string \<Rightarrow> unit run" where
  "setState W st error =
     bindM (with_state (thenM
         (modM (\<lambda>s. (if error \<noteq> [] then s\<lparr>m_state := st, m_lastError := error\<rparr> else s\<lparr>m_state := st\<rparr>)))
         (getM (statusLocked W))))
       (\<lambda>payload. callU W (Emit ''walletStateChanged'' payload))"

definition notifyOpen :: "world \<Rightarrow> string \<Rightarrow> bool \<Rightarrow> unit run" where
  "notifyOpen W network opn =
     (if \<not> w_has_notify W then retM ()
      else catchM (callU W (NotifyOpen network opn)) (\<lambda>_. retM ()) (retM ()))"

definition resetLocksOnce :: "world \<Rightarrow> unit run" where
  "resetLocksOnce W =
     bindM (getM m_locksReset) (\<lambda>done.
       if done \<or> \<not> w_has_notify W then retM ()
       else bindM (with_state (getM m_walletsDir)) (\<lambda>dir.
         if dir = [] then retM ()
         else thenM (modM (\<lambda>s. s\<lparr>m_locksReset := True\<rparr>))
           (forM [''mainnet'', ''stagenet'', ''testnet'', ''regtest''] (\<lambda>net. notifyOpen W net False))))"

definition sendsWaitForTor :: "bool run" where
  "sendsWaitForTor = with_state (getM (\<lambda>s. m_route s = CatchUp \<or> m_route s = WaitingForTor))"

definition verifyPassword :: "world \<Rightarrow> string \<Rightarrow> bool run" where
  "verifyPassword W password =
     bindM (with_state (getM (\<lambda>s. walletPath s (m_walletName s) @ ''.keys''))) (\<lambda>keys.
       call W (w_bool W) (WM (WM_verifyWalletPassword (c_str keys) (c_str password) False 1)))"

text \<open>\<^verbatim>\<open>RefreshPause\<close>: pause in the constructor, resume in the destructor.\<close>

definition with_pause :: "world \<Rightarrow> handle \<Rightarrow> 'a run \<Rightarrow> 'a run" where
  "with_pause W w body =
     thenM (whenM (w \<noteq> 0) (callU W (Wallet w W_pauseRefresh)))
       (finallyM body (whenM (w \<noteq> 0) (callU W (Wallet w W_startRefresh))))"

section \<open>Rules\<close>

declare with_pause_def [runs]

lemma wp_with_lock [wp]:
  "wp (with_lock mu mode body) Q s =
     wp body (\<lambda>r t. if r = Inl Terminated then Q r t else Q r (t\<lparr>hist := Unlock mu # hist t\<rparr>))
       (s\<lparr>hist := Lock mu mode # hist s\<rparr>)"
  by (simp add: with_lock_def wp)

lemma keeps_with_lock:
  assumes "\<And>s. I s \<Longrightarrow> I (s\<lparr>hist := Lock mu mode # hist s\<rparr>)" "\<And>s. I s \<Longrightarrow> I (s\<lparr>hist := Unlock mu # hist s\<rparr>)"
    and "keeps I body"
  shows "keeps I (with_lock mu mode body)"
  unfolding with_lock_def by (intro keeps keeps_log assms)

lemma triple_with_lock:
  "(\<And>s. P s \<Longrightarrow> P' (s\<lparr>hist := Lock mu md # hist s\<rparr>)) \<Longrightarrow>
   triple P' body (\<lambda>x t. Q x (t\<lparr>hist := Unlock mu # hist t\<rparr>)) (\<lambda>t. E (t\<lparr>hist := Unlock mu # hist t\<rparr>)) \<Longrightarrow>
   triple P (with_lock mu md body) Q E"
  unfolding with_lock_def by (rule triple_then [OF triple_log triple_finally]) (simp_all add: wp)

end
