(* ===== verification/Sends.thy ===== *)
theory Sends
  imports Runtime Names
begin

text \<open>
  The jobs that act on an open wallet: build, commit and drop a transaction, change the
  password, rescan and close (\<^verbatim>\<open>doCreateTransaction\<close>, \<^verbatim>\<open>doCommit\<close>, \<^verbatim>\<open>doDispose\<close>,
  \<^verbatim>\<open>doChangePassword\<close>, \<^verbatim>\<open>doRescan\<close>, \<^verbatim>\<open>doClose\<close> of \<^verbatim>\<open>src/wallet_runtime.cpp\<close>).
\<close>

text \<open>Closing: the wallet taken from the readers under the handle, then stored and closed without it.\<close>

definition detach_wallet :: "world \<Rightarrow> handle option run" where
  "detach_wallet W =
     with_lock HandleMu Exclusive (
       bindM (getM m_wallet) (\<lambda>w.
         if w = 0 then retM None
         else thenM (setState W Closing [])
           (thenM (modM (\<lambda>s. s\<lparr>m_wallet := 0, m_pendingTx := Map.empty\<rparr>)) (retM (Some w)))))"

definition close_detached :: "world \<Rightarrow> handle \<Rightarrow> json run" where
  "close_detached W w =
     thenM (callU W (Wallet w (W_store [])))
       (bindM (call W (w_bool W) (WM (WM_closeWallet w True))) (\<lambda>ok.
        bindM (with_state (bindM (getM m_network) (\<lambda>network.
            thenM (modM (\<lambda>s. s\<lparr>m_walletName := [], m_primaryAddress := [], m_lastSynced := False,
              m_route := Direct, m_torUse := [], m_probed := False, m_daemonConnected := False,
              m_daemonHeight := 0, m_dialPeer := []\<rparr>))
            (retM network)))) (\<lambda>network.
        thenM (notifyOpen W network False)
          (thenM (setState W NoWallet [])
            (retM (if ok then ok_result (JObj []) else err ''close failed''))))))"

definition doClose :: "world \<Rightarrow> json run" where
  "doClose W = bindM (detach_wallet W) (\<lambda>r. case r of
     None \<Rightarrow> retM (err ''no wallet open'') | Some w \<Rightarrow> close_detached W w)"

definition doRescan :: "world \<Rightarrow> json run" where
  "doRescan W =
     bindM (with_lock HandleMu Exclusive (
         bindM (getM m_wallet) (\<lambda>w.
           if w = 0 then retM False
           else thenM (callU W (Wallet w W_rescanBlockchainAsync)) (retM True))))
       (\<lambda>started. if \<not> started then retM (err ''no wallet open'')
         else thenM (setState W Syncing []) (retM (ok_result (JObj []))))"

text \<open>A transaction built and not yet sent: its handle, and its entry in the table.\<close>

definition tx_handle :: "rt \<Rightarrow> string" where
  "tx_handle s = ''tx'' @ to_string (unat (m_nextTx s))"

definition keep_tx :: "handle \<Rightarrow> rt \<Rightarrow> rt" where
  "keep_tx pt s = s\<lparr>m_nextTx := m_nextTx s + 1, m_pendingTx := (m_pendingTx s)(tx_handle s \<mapsto> pt)\<rparr>"

definition drop_tx :: "string \<Rightarrow> rt \<Rightarrow> rt" where
  "drop_tx handle s = s\<lparr>m_pendingTx := (m_pendingTx s)(handle := None)\<rparr>"

interpretation pn: issued_names "''tx''" m_nextTx m_pendingTx keep_tx drop_tx
  by unfold_locales (auto simp: keep_tx_def drop_tx_def tx_handle_def)

lemma pn_name: "pn.name s = tx_handle s"
  by (simp add: pn.name_def tx_handle_def)

text \<open>The part of \<^verbatim>\<open>doCreateTransaction\<close> after the request has been checked: build, store, describe.\<close>

definition buildTransaction :: "world \<Rightarrow> handle \<Rightarrow> string \<Rightarrow> string \<Rightarrow> u64 \<Rightarrow> int \<Rightarrow> u32 \<Rightarrow> json run" where
  "buildTransaction W w dst paymentId amount priority account =
     bindM (call W (w_handle W) (Wallet w (W_createTransaction (c_str dst) (c_str paymentId) amount 0
         priority account [] '',''))) (\<lambda>pt.
       if pt = 0 then retM (err ''createTransaction returned null'')
       else bindM (call W (w_int W) (PendingTx pt PT_status)) (\<lambda>status.
         if status \<noteq> 0 then
           bindM (take_call W (PendingTx pt PT_errorString)) (\<lambda>e.
             retM (err (if e = [] then ''createTransaction failed'' else e)))
         else bindM (getM tx_handle) (\<lambda>handle.
           thenM (modM (keep_tx pt))
               (bindM (call W (w_u64 W) (PendingTx pt PT_amount)) (\<lambda>amt.
                bindM (call W (w_u64 W) (PendingTx pt PT_fee)) (\<lambda>fee.
                bindM (call W (w_u64 W) (PendingTx pt PT_dust)) (\<lambda>dust.
                bindM (call W (w_u64 W) (PendingTx pt PT_txCount)) (\<lambda>count.
                bindM (joined_call W (PendingTx pt (PT_txid '',''))) (\<lambda>txids.
                  retM (ok_result (JObj [
                    (''txHandle'', JStr handle), (''amount'', JStr (to_string (unat amt))),
                    (''fee'', JStr (to_string (unat fee))), (''dust'', JStr (to_string (unat dust))),
                    (''txCount'', JInt (uint count)), (''txids'', JStr txids),
                    (''destination'', JStr dst)])))))))))))"

definition doCreateTransaction :: "world \<Rightarrow> json \<Rightarrow> json run" where
  "doCreateTransaction W p =
     with_lock HandleMu Exclusive (
       bindM (getM m_wallet) (\<lambda>w.
         if w = 0 then retM (err ''no wallet open'')
         else bindM sendsWaitForTor (\<lambda>waits.
           if waits then retM (err kWaitingForTor)
           else with_pause W w (
             bindM (call W (w_bool W) (WalletRead w W_watchOnly)) (\<lambda>watchOnly.
               if watchOnly then retM (err ''view-only wallet cannot spend'')
               else bindM (liftM (value_str (w_what W) p ''amount'' [])) (\<lambda>text.
                 case parseAtomic text of
                   None \<Rightarrow> retM (err ''amount must be a positive decimal string of atomic units'')
                 | Some amount \<Rightarrow>
                     if amount = 0 then retM (err ''amount must be a positive decimal string of atomic units'')
                     else bindM (liftM (value_str (w_what W) p ''address'' [])) (\<lambda>dst.
                       bindM (with_state (getM m_network)) (\<lambda>net.
                         if \<not> valid dst net then retM (err ''invalid destination address for this network'')
                         else bindM (liftM (value_num (w_what W) p ''priority'' 0)) (\<lambda>priority.
                           bindM (liftM (value_num (w_what W) p ''accountIndex'' 0)) (\<lambda>account.
                           bindM (liftM (value_str (w_what W) p ''paymentId'' [])) (\<lambda>paymentId.
                             buildTransaction W w dst paymentId amount (sint (word_of_int priority :: u32))
                               (word_of_int account))))))))))))"

text \<open>The part of \<^verbatim>\<open>doCommit\<close> once the transaction is found: read its txid, send it, drop its handle, store.\<close>

definition commitTransaction :: "world \<Rightarrow> handle \<Rightarrow> string \<Rightarrow> handle \<Rightarrow> json run" where
  "commitTransaction W w handle pt =
     bindM (joined_call W (PendingTx pt (PT_txid '',''))) (\<lambda>joined.
       let txids = (if looksLikeTxid joined then joined else []) in
       bindM (call W (w_bool W) (PendingTx pt (PT_commit [] False))) (\<lambda>ok.
         if \<not> ok then bindM (take_call W (PendingTx pt PT_errorString)) (\<lambda>e. retM (err e))
         else thenM (modM (drop_tx handle))
           (thenM (callU W (Wallet w (W_store [])))
             (retM (ok_result (JObj [(''txids'', JStr txids)]))))))"

definition doCommit :: "world \<Rightarrow> json \<Rightarrow> json run" where
  "doCommit W p =
     with_lock HandleMu Exclusive (
       bindM (getM m_wallet) (\<lambda>w.
         if w = 0 then retM (err ''no wallet open'')
         else bindM sendsWaitForTor (\<lambda>waits.
           if waits then retM (err kWaitingForTor)
           else with_pause W w (
             bindM (liftM (value_str (w_what W) p ''txHandle'' [])) (\<lambda>handle.
             bindM (getM (\<lambda>s. m_pendingTx s handle)) (\<lambda>it.
               case it of
                 None \<Rightarrow> retM (err ''unknown txHandle'')
               | Some pt \<Rightarrow> commitTransaction W w handle pt))))))"

definition doDispose :: "world \<Rightarrow> json \<Rightarrow> json run" where
  "doDispose W p =
     with_lock HandleMu Exclusive (
       bindM (liftM (value_str (w_what W) p ''txHandle'' [])) (\<lambda>handle.
       bindM (getM (\<lambda>s. m_pendingTx s handle)) (\<lambda>it.
         if it = None then retM (err ''unknown txHandle'')
         else thenM (modM (drop_tx handle))
           (retM (ok_result (JObj []))))))"

definition doChangePassword :: "world \<Rightarrow> json \<Rightarrow> json run" where
  "doChangePassword W p =
     with_lock HandleMu Exclusive (
       bindM (getM m_wallet) (\<lambda>w.
         if w = 0 then retM (err ''no wallet open'')
         else with_pause W w (
           bindM (liftM (value_str (w_what W) p ''oldPassword'' [])) (\<lambda>old.
           bindM (verifyPassword W old) (\<lambda>match.
             if \<not> match then retM (err ''wrong password'')
             else bindM (liftM (value_str (w_what W) p ''newPassword'' [])) (\<lambda>new.
               bindM (call W (w_bool W) (Wallet w (W_setPassword (c_str new)))) (\<lambda>ok.
                 if \<not> ok then bindM (take_call W (WalletRead w W_errorString)) (\<lambda>e. retM (err e))
                 else thenM (callU W (Wallet w (W_store []))) (retM (ok_result (JObj [])))))))))) "

end
