(* ===== verification/Tor.thy ===== *)
theory Tor
  imports Runtime
begin

text \<open>
  The routes: \<^verbatim>\<open>moveToTor\<close>, the idle \<^verbatim>\<open>tick\<close> that decides when to move, and the probe's reading
  (\<^verbatim>\<open>src/wallet_runtime.cpp\<close>). The routes are ordered by how far they are toward Tor.
\<close>

instantiation route :: linorder
begin

fun route_rank :: "route \<Rightarrow> nat" where
  "route_rank Direct = 0"
| "route_rank CatchUp = 1"
| "route_rank WaitingForTor = 2"
| "route_rank Tor = 3"

definition less_eq_route :: "route \<Rightarrow> route \<Rightarrow> bool" where
  "less_eq_route a b = (route_rank a \<le> route_rank b)"

definition less_route :: "route \<Rightarrow> route \<Rightarrow> bool" where
  "less_route a b = (route_rank a < route_rank b)"

instance
proof
  fix a b :: route
  show "a \<le> b \<Longrightarrow> b \<le> a \<Longrightarrow> a = b"
    by (cases a; cases b) (simp_all add: less_eq_route_def)
qed (auto simp: less_eq_route_def less_route_def)

end

text \<open>
  The node module's answer is one that wallet2 can be moved to: no error, an address and a
  proxy that is not the built-in Tor still joining.
\<close>

definition tor_ready :: "json \<Rightarrow> bool" where
  "tor_ready node \<longleftrightarrow> \<not> contains node ''error'' \<and> str node ''url'' \<noteq> [] \<and> str node ''proxy'' \<noteq> []
     \<and> str node ''proxy'' \<noteq> ''tor''"

text \<open>Nothing more goes to the node in use: the refresh paused and stopped, then offline.\<close>

definition quieten :: "world \<Rightarrow> bool \<Rightarrow> json \<Rightarrow> handle \<Rightarrow> bool run" where
  "quieten W abandon node w =
     thenM (callU W (Wallet w W_pauseRefresh))
       (thenM (callU W (Wallet w W_stop))
       (thenM (case jfind node ''catchUp'' of
           Some cu \<Rightarrow> whenM (abandon \<and> is_object cu)
             (bindM (socketsTo W (hostPort (str cu ''url'')) True) (\<lambda>_. retM ()))
         | None \<Rightarrow> retM ())
       (thenM (callU W (Wallet w (W_setOffline True)))
       (thenM (callU W (Wallet w W_refresh)) (retM True)))))"

definition goOffline :: "world \<Rightarrow> bool \<Rightarrow> json \<Rightarrow> bool run" where
  "goOffline W abandon node =
     with_lock HandleMu Shared (
       bindM (getM m_wallet) (\<lambda>w. if w = 0 then retM False else quieten W abandon node w))"

text \<open>The new dial, and under the handle: \<open>None\<close> where the wallet is gone, else the error or none.\<close>

definition dial_tor :: "world \<Rightarrow> string \<Rightarrow> string \<Rightarrow> handle \<Rightarrow> string option run" where
  "dial_tor W url proxy w =
     bindM (call W (w_bool W) (Wallet w (W_init (c_str (hostPort url)) 0 [] [] False False
         (c_str (proxyHostPort proxy))))) (\<lambda>ok.
       if ok then
         thenM (callU W (Wallet w (W_setTrustedDaemon False)))
         (thenM (callU W (Wallet w (W_setOffline False)))
         (thenM (callU W (Wallet w (W_setAutoRefreshInterval 2000)))
         (thenM (callU W (Wallet w W_startRefresh))
         (thenM (callU W (Wallet w W_refreshAsync)) (retM (Some []))))))
       else bindM (take_call W (WalletRead w W_errorString)) (\<lambda>e.
         retM (Some (''moving to Tor failed: '' @ e))))"

definition redial :: "world \<Rightarrow> bool \<Rightarrow> string \<Rightarrow> string \<Rightarrow> string option run" where
  "redial W ready url proxy =
     with_lock HandleMu Exclusive (
       bindM (getM m_wallet) (\<lambda>w.
         if w = 0 then retM None
         else if \<not> ready then retM (Some [])
         else dial_tor W url proxy w))"

text \<open>The route and the node in use, written at the end of a move.\<close>

definition settle_route :: "world \<Rightarrow> bool \<Rightarrow> string \<Rightarrow> string \<Rightarrow> string \<Rightarrow> state run" where
  "settle_route W ready url proxy error =
     with_state (bindM (nowM W) (\<lambda>now.
       thenM (modM (\<lambda>s.
         let route = (if ready \<and> error = [] then Tor else WaitingForTor) in
         s\<lparr>m_route := route, m_progressAt := now, m_torAskedAt := now,
           m_torUrl := (if route = Tor then url else []),
           m_daemonConnected := False,
           m_dialPeer := (if route = Tor then proxyHostPort proxy else [])\<rparr>))
       (getM m_state)))"

definition relocate :: "world \<Rightarrow> bool \<Rightarrow> json \<Rightarrow> unit run" where
  "relocate W abandon node =
     (let url = str node ''url''; proxy = str node ''proxy''; ready = tor_ready node in
      bindM (goOffline W abandon node) (\<lambda>there.
        if \<not> there then retM ()
        else bindM (redial W ready url proxy) (\<lambda>r.
          case r of
            None \<Rightarrow> retM ()
          | Some error \<Rightarrow>
              bindM (settle_route W ready url proxy error) (\<lambda>cur.
                thenM (logM NotifyProbe) (setState W cur error)))))"

definition moveToTor :: "world \<Rightarrow> bool \<Rightarrow> json option \<Rightarrow> unit run" where
  "moveToTor W abandon resolved =
     bindM (with_state (getM (\<lambda>s. (m_network s, m_route s)))) (\<lambda>(network, origin).
     bindM (case resolved of Some node \<Rightarrow> retM node | None \<Rightarrow> call W (w_json W) (Resolve network)) (\<lambda>node.
       if \<not> tor_ready node \<and> origin = WaitingForTor then retM ()
       else relocate W abandon node))"

text \<open>What one idle tick decides under the state lock: the route, whether it is stuck, whether to ask.\<close>

definition tick_decide :: "world \<Rightarrow> bool \<Rightarrow> u64 \<Rightarrow> int \<Rightarrow> (route \<times> bool \<times> bool \<times> string \<times> string) run" where
  "tick_decide W synced height now =
     with_state (
       bindM (getM m_route) (\<lambda>route.
         thenM (modM (\<lambda>s. if height > m_progressHeight s then s\<lparr>m_progressHeight := height, m_progressAt := now\<rparr> else s))
         (bindM (getM (\<lambda>s. route = CatchUp \<and> \<not> synced \<and> now - m_progressAt s > kCatchUpGiveUp)) (\<lambda>stuck.
          bindM (getM (\<lambda>s. route = Tor \<and> now - m_torAskedAt s \<ge> kTorAskEvery)) (\<lambda>askTor.
            thenM (modM (\<lambda>s. if askTor then s\<lparr>m_torAskedAt := now\<rparr> else s))
              (getM (\<lambda>s. (route, stuck, askTor, if askTor then m_network s else [],
                 if askTor then m_torUrl s else []))))))))"

definition tick :: "world \<Rightarrow> unit run" where
  "tick W =
     thenM (resetLocksOnce W)
     (bindM (with_lock HandleMu Shared (
         bindM (getM m_wallet) (\<lambda>w.
           if w = 0 then retM None
           else bindM (call W (w_bool W) (WalletRead w W_synchronized)) (\<lambda>synced.
             bindM (call W (w_u64 W) (WalletRead w W_blockChainHeight)) (\<lambda>height.
               retM (Some (synced, height)))))))
       (\<lambda>r. case r of
          None \<Rightarrow> retM ()
        | Some (synced, height) \<Rightarrow>
            bindM (nowM W) (\<lambda>now.
            bindM (tick_decide W synced height now) (\<lambda>(route, stuck, askTor, network, bound).
            thenM (if route = CatchUp \<and> (synced \<or> stuck) \<or> route = WaitingForTor then
                moveToTor W (stuck \<and> \<not> synced) None
              else if askTor then
                bindM (call W (w_json W) (Resolve network)) (\<lambda>node.
                  whenM (tor_ready node \<and> str node ''url'' \<noteq> bound) (moveToTor W False (Some node)))
              else retM ())
            (bindM (with_state (getM m_state)) (\<lambda>cur.
              if cur = Syncing \<and> synced then setState W Ready []
              else if cur = Ready \<and> \<not> synced then setState W Syncing []
              else retM ()))))))"

text \<open>
  One turn of \<^verbatim>\<open>probeMain\<close> after its wait: the reading stored for \<^verbatim>\<open>status()\<close>. Its exceptions are
  swallowed.
\<close>

definition probe :: "world \<Rightarrow> unit run" where
  "probe W =
     catchM (try_shared W (retM ()) (
         bindM (getM m_wallet) (\<lambda>w.
           if w = 0 then retM ()
           else bindM (with_state (getM m_dialPeer)) (\<lambda>peer.
             bindM (if peer \<noteq> [] then bindM (socketsTo W peer False) (\<lambda>n. retM (n > 0)) else retM False) (\<lambda>connected.
             bindM (if connected then
                 bindM (call W (w_bool W) (WalletRead w W_synchronized)) (\<lambda>synced.
                   if synced then call W (w_u64 W) (WalletRead w W_daemonBlockChainHeight) else retM 0)
               else retM 0) (\<lambda>height.
               with_state (modM (\<lambda>s.
                 let t = s\<lparr>m_probed := True, m_daemonConnected := connected\<rparr> in
                 if height \<noteq> 0 then t\<lparr>m_daemonHeight := height\<rparr> else t))))))))
       (\<lambda>_. retM ()) (retM ())"

end
