(* ===== verification/Open.thy ===== *)
theory Open
  imports Runtime
begin

text \<open>
  \<^verbatim>\<open>doOpenLike\<close> of \<^verbatim>\<open>src/wallet_runtime.cpp\<close>: opening, creating and restoring a wallet, in the phases
  the function has. A phase that returns early gives the answer (\<open>Some\<close>, or \<open>Inl\<close>).
\<close>

record open_plan =
  op_name :: string
  op_password :: string
  op_network :: string
  op_node :: json
  op_url :: string
  op_proxyRequired :: bool
  op_torUse :: string
  op_route :: route
  op_dialUrl :: string
  op_dialProxy :: string

definition bad_wallet_name :: "string \<Rightarrow> bool" where
  "bad_wallet_name name \<longleftrightarrow> name = [] \<or> CHR ''/'' \<in> set name \<or> find_sub ''..'' name \<noteq> None"

definition known_network :: "string \<Rightarrow> bool" where
  "known_network network \<longleftrightarrow> network = ''mainnet'' \<or> network = ''stagenet'' \<or> network = ''testnet''
     \<or> network = ''regtest''"

definition choose_route :: "string \<Rightarrow> string \<Rightarrow> route" where
  "choose_route catchUp proxy =
     (if catchUp \<noteq> [] then CatchUp
      else if proxy = ''tor'' then WaitingForTor
      else if proxy \<noteq> [] then Tor
      else Direct)"

definition catchUp_url :: "json \<Rightarrow> string" where
  "catchUp_url node = (case jfind node ''catchUp'' of
     Some cu \<Rightarrow> if is_object cu then str cu ''url'' else []
   | None \<Rightarrow> [])"

text \<open>The request and the node policy, before anything is changed.\<close>

definition plan_open :: "world \<Rightarrow> json \<Rightarrow> (json + open_plan) run" where
  "plan_open W p =
     bindM (liftM (value_str (w_what W) p ''name'' [])) (\<lambda>name.
     bindM (liftM (value_str (w_what W) p ''password'' [])) (\<lambda>password.
     bindM (liftM (value_str (w_what W) p ''network'' [])) (\<lambda>network.
       if bad_wallet_name name then retM (Inl (err ''bad wallet name''))
       else if \<not> known_network network then retM (Inl (err (''unknown network: '' @ network)))
       else bindM (call W (w_json W) (Resolve network)) (\<lambda>node.
         if contains node ''error'' then retM (Inl (err (str node ''error'')))
         else let url = str node ''url''; proxy = str node ''proxy'' in
           bindM (liftM (value_bool (w_what W) node ''proxyRequired'' False)) (\<lambda>proxyRequired.
             let torUse = str node ''torUse''; catchUp = catchUp_url node in
             if url = [] then retM (Inl (err (''no daemon configured for '' @ network)))
             else if proxyRequired \<and> proxy = [] then
               retM (Inl (err (''proxy required for '' @ network @
                 '' but none configured (fail-closed: refusing to connect in the clear)'')))
             else let route = choose_route catchUp proxy in
               retM (Inr \<lparr>op_name = name, op_password = password, op_network = network, op_node = node,
                 op_url = url, op_proxyRequired = proxyRequired, op_torUse = torUse, op_route = route,
                 op_dialUrl = (if route = CatchUp then catchUp else url),
                 op_dialProxy = (if route = Tor then proxyHostPort proxy
                   else if route = WaitingForTor then kNoRoute else [])\<rparr>))))))"

text \<open>The wallet file: opened, or created where none exists. \<open>Inl\<close> is the refusal.\<close>

definition load_wallet :: "world \<Rightarrow> string \<Rightarrow> json \<Rightarrow> open_plan \<Rightarrow> string \<Rightarrow> int \<Rightarrow> (json + handle) run" where
  "load_wallet W k p pl path nettype =
     (let cpath = c_str path; cpw = c_str (op_password pl);
          refuse = (\<lambda>msg. thenM (setState W NoWallet []) (retM (Inl (err (msg @ op_name pl)))));
          got = (\<lambda>w. retM (Inr w)) in
      bindM (call W (w_bool W) (WM (WM_walletExists cpath))) (\<lambda>exists.
        if k = ''open_wallet'' then
          if \<not> exists then refuse ''no such wallet: ''
          else bindM (call W (w_handle W) (WM (WM_openWallet cpath cpw nettype))) got
        else if exists then refuse ''wallet already exists: ''
        else if k = ''create_wallet'' then
          bindM (liftM (value_str (w_what W) p ''language'' ''English'')) (\<lambda>language.
          bindM (call W (w_handle W) (WM (WM_createWallet cpath cpw (c_str language) nettype))) got)
        else if k = ''restore_from_seed'' then
          bindM (liftM (value_str (w_what W) p ''seed'' [])) (\<lambda>seed.
          bindM (liftM (value_num (w_what W) p ''restoreHeight'' 0)) (\<lambda>height.
          bindM (liftM (value_str (w_what W) p ''seedOffset'' [])) (\<lambda>seedOffset.
          bindM (call W (w_handle W) (WM (WM_recoveryWallet cpath cpw (c_str seed) nettype
            (word_of_int height) 1 (c_str seedOffset)))) got)))
        else
          bindM (liftM (value_num (w_what W) p ''restoreHeight'' 0)) (\<lambda>height.
          bindM (liftM (value_str (w_what W) p ''address'' [])) (\<lambda>address.
          bindM (liftM (value_str (w_what W) p ''viewKey'' [])) (\<lambda>viewKey.
          bindM (liftM (value_str (w_what W) p ''spendKey'' [])) (\<lambda>spendKey.
          bindM (call W (w_handle W) (WM (WM_createWalletFromKeys cpath cpw ''English'' nettype
            (word_of_int height) (c_str address) (c_str viewKey) (c_str spendKey) 1))) got))))))"

text \<open>What was loaded: an engine error, or a wallet of another network, is closed again.\<close>

definition check_loaded :: "world \<Rightarrow> open_plan \<Rightarrow> int \<Rightarrow> handle \<Rightarrow> json option run" where
  "check_loaded W pl nettype w =
     bindM (if w = 0 then retM True
         else bindM (call W (w_int W) (WalletRead w W_status)) (\<lambda>st. retM (st \<noteq> 0))) (\<lambda>bad.
       if bad then
         bindM (if w \<noteq> 0 then take_call W (WalletRead w W_errorString) else take_call W (WM WM_errorString)) (\<lambda>e.
           let e' = (if e = [] then ''open failed'' else e) in
           thenM (whenM (w \<noteq> 0) (bindM (call W (w_bool W) (WM (WM_closeWallet w False))) (\<lambda>_. retM ())))
           (thenM (setState W NoWallet e') (retM (Some (err e')))))
       else bindM (call W (w_int W) (WalletRead w W_nettype)) (\<lambda>nt.
         if nt \<noteq> nettype then
           thenM (bindM (call W (w_bool W) (WM (WM_closeWallet w False))) (\<lambda>_. retM ()))
             (let e = ''wallet network does not match selected '' @ op_network pl
                @ ''; select the wallet's network and try again'' in
              thenM (setState W NoWallet e) (retM (Some (err e))))
         else retM None))"

text \<open>The daemon configured: \<^verbatim>\<open>init\<close>, offline while waiting, trusted only where allowed.\<close>

definition dial_wallet :: "world \<Rightarrow> string \<Rightarrow> open_plan \<Rightarrow> handle \<Rightarrow> json option run" where
  "dial_wallet W k pl w =
     thenM (whenM (op_network pl = ''regtest'' \<and> k \<noteq> ''open_wallet'')
       (callU W (Wallet w (W_setRefreshFromBlockHeight 0))))
     (bindM (call W (w_bool W) (Wallet w (W_init (c_str (hostPort (op_dialUrl pl))) 0 [] [] False False
         (c_str (op_dialProxy pl))))) (\<lambda>ok.
       if \<not> ok then
         bindM (take_call W (WalletRead w W_errorString)) (\<lambda>e.
           thenM (bindM (call W (w_bool W) (WM (WM_closeWallet w (k \<noteq> ''open_wallet'')))) (\<lambda>_. retM ()))
           (thenM (setState W NoWallet e) (retM (Some (err (''init failed: '' @ e))))))
       else
         thenM (whenM (op_route pl = WaitingForTor) (callU W (Wallet w (W_setOffline True))))
         (bindM (if op_route pl = Direct then liftM (value_bool (w_what W) (op_node pl) ''trusted'' False)
             else retM False) (\<lambda>trusted.
           thenM (callU W (Wallet w (W_setTrustedDaemon (op_route pl = Direct \<and> trusted \<and> isLoopback (op_url pl)))))
             (retM None)))))"

text \<open>\<^verbatim>\<open>for (i = 0; i < 20 && !connected; ++i)\<close>: ask, then sleep half a second.\<close>

primrec await_loop :: "world \<Rightarrow> handle \<Rightarrow> nat \<Rightarrow> bool run" where
  "await_loop W w 0 = retM False"
| "await_loop W w (Suc n) =
     bindM (call W (w_int W) (WalletRead w W_connected)) (\<lambda>c.
       if c = 1 then retM True
       else thenM (logM (SleepMs 500)) (await_loop W w n))"

definition await_node :: "world \<Rightarrow> open_plan \<Rightarrow> handle \<Rightarrow> json option run" where
  "await_node W pl w =
     (if op_route pl = Tor \<and> op_torUse pl = [] then
        bindM (await_loop W w 20) (\<lambda>connected.
          if \<not> connected \<and> op_proxyRequired pl then
            thenM (bindM (call W (w_bool W) (WM (WM_closeWallet w True))) (\<lambda>_. retM ()))
            (thenM (setState W NoWallet ''daemon unreachable through the required proxy'')
              (retM (Some (err ''daemon unreachable through the required proxy''))))
          else retM None)
      else retM None)"

text \<open>The wallet handed over to the readers, with what is known of it.\<close>

definition hand_over :: "world \<Rightarrow> open_plan \<Rightarrow> string \<Rightarrow> int \<Rightarrow> handle \<Rightarrow> unit run" where
  "hand_over W pl addr nettype w =
     thenM (with_lock HandleMu Exclusive (modM (\<lambda>s. s\<lparr>m_wallet := w\<rparr>)))
       (with_state (bindM (nowM W) (\<lambda>now. modM (\<lambda>s.
           s\<lparr>m_walletName := op_name pl, m_network := op_network pl, m_primaryAddress := addr,
             m_nettype := nettype, m_lastError := [], m_route := op_route pl, m_torUse := op_torUse pl,
             m_probed := False, m_daemonConnected := False, m_daemonHeight := 0,
             m_dialPeer := (if op_route pl = Tor then op_dialProxy pl
               else if op_route pl = WaitingForTor then [] else hostPort (op_dialUrl pl)),
             m_progressHeight := 0, m_progressAt := now, m_torAskedAt := now,
             m_torUrl := (if op_route pl = Tor then op_url pl else [])\<rparr>))))"

text \<open>The refresh started, the wallet handed over, the node's settings locked, the files restricted.\<close>

definition publish_wallet :: "world \<Rightarrow> open_plan \<Rightarrow> string \<Rightarrow> int \<Rightarrow> handle \<Rightarrow> json run" where
  "publish_wallet W pl path nettype w =
     thenM (callU W (Wallet w (W_setAutoRefreshInterval 2000)))
     (thenM (whenM (op_route pl \<noteq> WaitingForTor)
         (thenM (callU W (Wallet w W_startRefresh)) (callU W (Wallet w W_refreshAsync))))
     (bindM (take_call W (WalletRead w (W_address 0 0))) (\<lambda>addr.
       thenM (hand_over W pl addr nettype w)
       (thenM (logM NotifyProbe)
       (thenM (notifyOpen W (op_network pl) True)
       (thenM (forM [path, path @ ''.keys'', path @ ''.address.txt''] (\<lambda>f.
           bindM (call W (w_bool W) (FsExists f)) (\<lambda>there. whenM there (callU W (FsPermissions f)))))
       (thenM (setState W Syncing [])
       (bindM (call W (w_bool W) (WalletRead w W_watchOnly)) (\<lambda>watchOnly.
         retM (ok_result (JObj [(''name'', JStr (op_name pl)), (''network'', JStr (op_network pl)),
           (''address'', JStr addr), (''watchOnly'', JBool watchOnly)])))))))))))"

text \<open>Early returns: go on only where the phase gave no answer.\<close>

definition or_return :: "json option run \<Rightarrow> json run \<Rightarrow> json run" where
  "or_return m k = bindM m (\<lambda>r. case r of Some j \<Rightarrow> retM j | None \<Rightarrow> k)"

definition doOpenLike :: "world \<Rightarrow> string \<Rightarrow> json \<Rightarrow> json run" where
  "doOpenLike W k p =
     bindM (plan_open W p) (\<lambda>r. case r of
         Inl j \<Rightarrow> retM j
       | Inr pl \<Rightarrow>
           bindM (with_lock HandleMu Exclusive (getM (\<lambda>s. m_wallet s \<noteq> 0))) (\<lambda>already.
             if already then retM (err ''a wallet is already open; close it first'')
             else thenM (setState W Opening [])
               (bindM (getM (\<lambda>s. walletPath s (op_name pl))) (\<lambda>path.
                let nettype = nettypeOf (op_network pl) in
                thenM (callU W (WM (WM_setDaemonAddress (c_str (hostPort (op_dialUrl pl))))))
                (bindM (load_wallet W k p pl path nettype) (\<lambda>r. case r of
                    Inl j \<Rightarrow> retM j
                  | Inr w \<Rightarrow>
                      or_return (check_loaded W pl nettype w)
                      (or_return (dial_wallet W k pl w)
                      (or_return (await_node W pl w)
                        (publish_wallet W pl path nettype w)))))))))"

end
