(* ===== verification/Worker.thy ===== *)
theory Worker
  imports Sends Tor Open
begin

text \<open>
  The worker's side of \<^verbatim>\<open>src/wallet_runtime.cpp\<close> around the job bodies: \<^verbatim>\<open>run\<close>'s dispatch on the
  job's kind with its two handlers, the announcement of a finished job, the idle turn and what
  \<^verbatim>\<open>shutdown\<close> does once the threads have ended.
\<close>

definition dispatch :: "world \<Rightarrow> string \<Rightarrow> json \<Rightarrow> json run" where
  "dispatch W k params =
     (if k = ''open_wallet'' \<or> k = ''create_wallet'' \<or> k = ''restore_from_seed'' \<or> k = ''restore_from_keys''
      then doOpenLike W k params
      else if k = ''close_wallet'' then doClose W
      else if k = ''rescan'' then doRescan W
      else if k = ''create_transaction'' then doCreateTransaction W params
      else if k = ''commit_transaction'' then doCommit W params
      else if k = ''dispose_transaction'' then doDispose W params
      else if k = ''change_password'' then doChangePassword W params
      else retM JNull)"

definition run_job :: "world \<Rightarrow> string \<Rightarrow> json \<Rightarrow> json run" where
  "run_job W k params =
     thenM (resetLocksOnce W)
       (catchM (dispatch W k params)
         (\<lambda>what. retM (err (''exception: '' @ what)))
         (retM (err ''the wallet engine raised an unknown error'')))"

text \<open>The event of a settled job; a failure to send it changes nothing.\<close>

definition announce :: "world \<Rightarrow> string \<Rightarrow> string \<Rightarrow> unit run" where
  "announce W i st =
     catchM (callU W (Emit ''jobFinished'' (JObj [(''jobId'', JStr i), (''state'', JStr st)])))
       (\<lambda>_. retM ()) (retM ())"

text \<open>A turn with nothing queued; \<^verbatim>\<open>threadMain\<close> swallows what it throws.\<close>

definition idle :: "world \<Rightarrow> unit run" where
  "idle W = catchM (tick W) (\<lambda>_. retM ()) (retM ())"

text \<open>\<^verbatim>\<open>shutdown\<close> after the threads were joined.\<close>

definition shutdown_close :: "world \<Rightarrow> unit run" where
  "shutdown_close W =
     with_lock HandleMu Exclusive (
       bindM (getM m_wallet) (\<lambda>w.
         whenM (w \<noteq> 0)
           (thenM (callU W (Wallet w (W_store [])))
           (thenM (bindM (call W (w_bool W) (WM (WM_closeWallet w True))) (\<lambda>_. retM ()))
             (modM (\<lambda>s. s\<lparr>m_wallet := 0\<rparr>))))))"

end
