(* ===== verification/Reads.thy ===== *)
theory Reads
  imports Runtime
begin

text \<open>
  The calls that answer directly, on the caller's thread (\<^verbatim>\<open>src/wallet_runtime.cpp\<close>, under "Reads"),
  and the two that change a subaddress.
\<close>

definition status :: "world \<Rightarrow> json run" where
  "status W =
     bindM (with_state (getM (\<lambda>s.
         let j = jset (statusLocked W s) ''connected'' (JBool (m_daemonConnected s)) in
         if m_probed s \<and> m_daemonHeight s \<noteq> 0 then jset j ''daemonHeight'' (JInt (uint (m_daemonHeight s))) else j)))
       (\<lambda>j. try_shared W (retM (jset j ''busy'' (JBool True)))
         (bindM (getM m_wallet) (\<lambda>w.
           if w \<noteq> 0 then
             bindM (call W (w_bool W) (WalletRead w W_synchronized)) (\<lambda>synced.
             bindM (call W (w_u64 W) (WalletRead w W_blockChainHeight)) (\<lambda>height.
             bindM (call W (w_bool W) (WalletRead w W_watchOnly)) (\<lambda>watchOnly.
               retM (jset (jset (jset j ''synchronized'' (JBool synced)) ''walletHeight'' (JInt (uint height)))
                 ''watchOnly'' (JBool watchOnly)))))
           else retM (jset (jset (jset (jset (jset j ''connected'' (JBool False)) ''synchronized'' (JBool False))
             ''walletHeight'' (JInt 0)) ''daemonHeight'' (JInt 0)) ''watchOnly'' (JBool False)))))"

definition balance :: "world \<Rightarrow> u32 \<Rightarrow> string run" where
  "balance W account =
     try_shared W (retM []) (bindM (getM m_wallet) (\<lambda>w.
       if w \<noteq> 0 then bindM (call W (w_u64 W) (WalletRead w (W_balance account))) (\<lambda>v. retM (to_string (unat v)))
       else retM ''0''))"

definition unlockedBalance :: "world \<Rightarrow> u32 \<Rightarrow> string run" where
  "unlockedBalance W account =
     try_shared W (retM []) (bindM (getM m_wallet) (\<lambda>w.
       if w \<noteq> 0 then bindM (call W (w_u64 W) (WalletRead w (W_unlockedBalance account))) (\<lambda>v. retM (to_string (unat v)))
       else retM ''0''))"

definition address :: "world \<Rightarrow> u64 \<Rightarrow> u64 \<Rightarrow> string run" where
  "address W account index =
     try_shared W (retM []) (bindM (getM m_wallet) (\<lambda>w.
       if w \<noteq> 0 then take_call W (WalletRead w (W_address account index)) else retM []))"

primrec subaddresses_loop :: "world \<Rightarrow> handle \<Rightarrow> u32 \<Rightarrow> nat list \<Rightarrow> json list run" where
  "subaddresses_loop W w account [] = retM []"
| "subaddresses_loop W w account (i # is) =
     bindM (take_call W (WalletRead w (W_address (ucast account) (word_of_nat i)))) (\<lambda>a.
     bindM (take_call W (WalletRead w (W_getSubaddressLabel account (word_of_nat i)))) (\<lambda>l.
     bindM (subaddresses_loop W w account is) (\<lambda>rest.
       retM (JObj [(''index'', JInt (int i)), (''address'', JStr a), (''label'', JStr l)] # rest))))"

definition subaddresses :: "world \<Rightarrow> u32 \<Rightarrow> json run" where
  "subaddresses W account =
     try_shared W (retM (JArr [])) (bindM (getM m_wallet) (\<lambda>w.
       if w = 0 then retM (JArr [])
       else bindM (call W (w_u64 W) (WalletRead w (W_numSubaddresses account))) (\<lambda>n.
         bindM (subaddresses_loop W w account [0..<unat n]) (\<lambda>js. retM (JArr js)))))"

definition createSubaddress :: "world \<Rightarrow> u32 \<Rightarrow> string \<Rightarrow> json run" where
  "createSubaddress W account label =
     with_lock HandleMu Exclusive (bindM (getM m_wallet) (\<lambda>w.
       if w = 0 then retM (err ''no wallet open'')
       else thenM (callU W (Wallet w (W_addSubaddress account (c_str label))))
         (bindM (call W (w_u64 W) (WalletRead w (W_numSubaddresses account))) (\<lambda>n.
           if n = 0 then retM (err ''addSubaddress failed'')
           else let idx = n - 1 in
             thenM (callU W (Wallet w (W_store [])))
               (bindM (take_call W (WalletRead w (W_address (ucast account) idx))) (\<lambda>a.
                 retM (ok_result (JObj [(''index'', JInt (uint idx)), (''address'', JStr a)]))))))))"

definition setSubaddressLabel :: "world \<Rightarrow> u32 \<Rightarrow> u32 \<Rightarrow> string \<Rightarrow> json run" where
  "setSubaddressLabel W account index label =
     with_lock HandleMu Exclusive (bindM (getM m_wallet) (\<lambda>w.
       if w = 0 then retM (err ''no wallet open'')
       else bindM (call W (w_u64 W) (WalletRead w (W_numSubaddresses account))) (\<lambda>n.
         if ucast index \<ge> n then retM (err ''no such subaddress'')
         else thenM (callU W (Wallet w (W_setSubaddressLabel account index (c_str label))))
           (thenM (callU W (Wallet w (W_store [])))
             (bindM (take_call W (WalletRead w (W_getSubaddressLabel account index))) (\<lambda>l.
               retM (ok_result (JObj [(''index'', JInt (uint index)), (''label'', JStr l)]))))))))"

text \<open>One row of the history, and where an outgoing payment went.\<close>

primrec destinations_loop :: "world \<Rightarrow> handle \<Rightarrow> int list \<Rightarrow> json list run" where
  "destinations_loop W t [] = retM []"
| "destinations_loop W t (d # ds) =
     bindM (take_call W (TxInfo t (TI_transfers_address d))) (\<lambda>a.
     bindM (call W (w_u64 W) (TxInfo t (TI_transfers_amount d))) (\<lambda>amt.
     bindM (destinations_loop W t ds) (\<lambda>rest.
       retM (JObj [(''address'', JStr a), (''amount'', JStr (to_string (unat amt)))] # rest))))"

definition history_row :: "world \<Rightarrow> handle \<Rightarrow> json run" where
  "history_row W t =
     bindM (call W (w_int W) (TxInfo t TI_transfers_count)) (\<lambda>dn.
     bindM (destinations_loop W t [0..dn - 1]) (\<lambda>dests.
     bindM (take_call W (TxInfo t TI_hash)) (\<lambda>txid.
     bindM (call W (w_int W) (TxInfo t TI_direction)) (\<lambda>dir.
     bindM (call W (w_u64 W) (TxInfo t TI_amount)) (\<lambda>amount.
     bindM (call W (w_u64 W) (TxInfo t TI_fee)) (\<lambda>fee.
     bindM (call W (w_u64 W) (TxInfo t TI_blockHeight)) (\<lambda>height.
     bindM (call W (w_u64 W) (TxInfo t TI_confirmations)) (\<lambda>confirmations.
     bindM (call W (w_u64 W) (TxInfo t TI_timestamp)) (\<lambda>timestamp.
     bindM (call W (w_bool W) (TxInfo t TI_isPending)) (\<lambda>pending.
     bindM (call W (w_bool W) (TxInfo t TI_isFailed)) (\<lambda>failed.
     bindM (call W (w_bool W) (TxInfo t TI_isCoinbase)) (\<lambda>coinbase.
     bindM (call W (w_u64 W) (TxInfo t TI_unlockTime)) (\<lambda>unlockTime.
     bindM (take_call W (TxInfo t TI_paymentId)) (\<lambda>paymentId.
     bindM (take_call W (TxInfo t TI_description)) (\<lambda>description.
     bindM (joined_call W (TxInfo t (TI_subaddrIndex '',''))) (\<lambda>subaddrIndex.
     bindM (call W (w_u64 W) (TxInfo t TI_subaddrAccount)) (\<lambda>account.
       retM (JObj [
         (''txid'', JStr txid), (''direction'', JStr (if dir = 0 then ''in'' else ''out'')),
         (''amount'', JStr (to_string (unat amount))), (''fee'', JStr (to_string (unat fee))),
         (''height'', JInt (uint height)), (''confirmations'', JInt (uint confirmations)),
         (''timestamp'', JInt (uint timestamp)), (''pending'', JBool pending),
         (''failed'', JBool failed), (''coinbase'', JBool coinbase),
         (''unlockTime'', JInt (uint unlockTime)), (''paymentId'', JStr paymentId),
         (''description'', JStr description), (''subaddrIndex'', JStr subaddrIndex),
         (''destinations'', JArr dests), (''account'', JInt (uint account))]))))))))))))))))))"

primrec history_loop :: "world \<Rightarrow> handle \<Rightarrow> int list \<Rightarrow> json list run" where
  "history_loop W hst [] = retM []"
| "history_loop W hst (i # is) =
     bindM (call W (w_handle W) (TxHistory hst (TH_transaction i))) (\<lambda>t.
       if t = 0 then history_loop W hst is
       else bindM (history_row W t) (\<lambda>row.
         bindM (history_loop W hst is) (\<lambda>rest. retM (row # rest))))"

definition history :: "world \<Rightarrow> json run" where
  "history W =
     with_lock HandleMu Shared (bindM (getM m_wallet) (\<lambda>w.
       if w = 0 then retM (JArr [])
       else bindM (call W (w_handle W) (WalletRead w W_history)) (\<lambda>hst.
         if hst = 0 then retM (JArr [])
         else thenM (callU W (TxHistory hst TH_refresh))
           (bindM (call W (w_int W) (TxHistory hst TH_count)) (\<lambda>n.
             bindM (history_loop W hst [0..n - 1]) (\<lambda>rows. retM (JArr rows)))))))"

definition addressValid :: "string \<Rightarrow> string \<Rightarrow> bool" where
  "addressValid addr network = valid addr network"

definition revealSeed :: "world \<Rightarrow> string \<Rightarrow> json run" where
  "revealSeed W password =
     with_lock HandleMu Shared (bindM (getM m_wallet) (\<lambda>w.
       if w = 0 then retM (err ''no wallet open'')
       else bindM (verifyPassword W password) (\<lambda>match.
         if \<not> match then retM (err ''wrong password'')
         else bindM (take_call W (WalletRead w (W_seed []))) (\<lambda>seed.
           if seed = [] then retM (err ''this wallet has no seed (restored from keys?)'')
           else retM (ok_result (JObj [(''seed'', JStr seed)]))))))"

definition revealViewKey :: "world \<Rightarrow> string \<Rightarrow> json run" where
  "revealViewKey W password =
     with_lock HandleMu Shared (bindM (getM m_wallet) (\<lambda>w.
       if w = 0 then retM (err ''no wallet open'')
       else bindM (verifyPassword W password) (\<lambda>match.
         if \<not> match then retM (err ''wrong password'')
         else bindM (take_call W (WalletRead w W_secretViewKey)) (\<lambda>viewKey.
           bindM (take_call W (WalletRead w (W_address 0 0))) (\<lambda>a.
             retM (ok_result (JObj [(''viewKey'', JStr viewKey), (''address'', JStr a)])))))))"

text \<open>
  \<^verbatim>\<open>listWallets\<close>: from the directory's file names (\<open>None\<close> where it is no directory), the names of
  the key files.
\<close>

definition listWallets :: "string \<Rightarrow> string list option \<Rightarrow> json" where
  "listWallets dir entries =
     (if dir = [] then JArr []
      else case entries of
        None \<Rightarrow> JArr []
      | Some fns \<Rightarrow> JArr (map (\<lambda>fn. JStr (take (length fn - 5) fn))
          (filter (\<lambda>fn. length fn > 5 \<and> drop (length fn - 5) fn = ''.keys'') fns)))"

definition walletExists :: "world \<Rightarrow> string \<Rightarrow> bool run" where
  "walletExists W name =
     (if name = [] \<or> CHR ''/'' \<in> set name then retM False
      else bindM (getM (\<lambda>s. walletPath s name)) (\<lambda>path.
        call W (w_bool W) (WM (WM_walletExists (c_str path)))))"

end
