(* ===== verification/Module_Api.thy ===== *)
theory Module_Api
  imports Reads Worker Tickets
begin

text \<open>
  \<^verbatim>\<open>src/monero_wallet_core_impl.cpp\<close>: the module's methods over the runtime, the shape of their
  results, the indices they take and the node module's answer.
\<close>

type_synonym i64 = "64 word"

section \<open>Results\<close>

record std_result =
  sr_success :: bool
  sr_value :: json
  sr_error :: string

fun jerase :: "json \<Rightarrow> string \<Rightarrow> json" where
  "jerase (JObj m) k = JObj (filter (\<lambda>(k', v). k' \<noteq> k) m)"
| "jerase j k = j"

definition fromJson :: "what \<Rightarrow> json \<Rightarrow> exn + std_result" where
  "fromJson what j =
     (case value_bool what j ''ok'' False of
        Inl e \<Rightarrow> Inl e
      | Inr True \<Rightarrow>
          let v = jerase j ''ok'' in
          Inr \<lparr>sr_success = True, sr_value = (case jfind v ''result'' of Some r \<Rightarrow> r | None \<Rightarrow> v), sr_error = []\<rparr>
      | Inr False \<Rightarrow>
          (case value_str what j ''error'' ''unknown error'' of
             Inl e \<Rightarrow> Inl e
           | Inr e \<Rightarrow> Inr \<lparr>sr_success = False, sr_value = JNull, sr_error = e\<rparr>))"

section \<open>Indices\<close>

text \<open>\<^verbatim>\<open>static_cast<uint32_t>(a < 0 ? 0 : a)\<close> and its 64-bit form, of an \<^verbatim>\<open>int64_t\<close>.\<close>

definition index32 :: "i64 \<Rightarrow> u32" where
  "index32 a = (if sint a < 0 then 0 else ucast a)"

definition index64 :: "i64 \<Rightarrow> u64" where
  "index64 a = (if sint a < 0 then 0 else a)"

section \<open>The node module's answer\<close>

text \<open>
  \<^verbatim>\<open>resolve\<close>: from the node module's reply (or what the call threw) and the JSON parser (which
  may throw) to the node, or to an object with the error.
\<close>

definition node_error :: "string \<Rightarrow> json" where
  "node_error msg = JObj [(''error'', JStr msg)]"

definition resolve_body :: "what \<Rightarrow> (string \<Rightarrow> exn + json) \<Rightarrow> exn + string \<Rightarrow> exn + json" where
  "resolve_body what parse reply =
     (case reply of Inl e \<Rightarrow> Inl e | Inr raw \<Rightarrow>
      case parse raw of Inl e \<Rightarrow> Inl e | Inr j \<Rightarrow>
      case value_bool what j ''ok'' False of
        Inl e \<Rightarrow> Inl e
      | Inr ok \<Rightarrow>
          if \<not> ok then (case value_str what j ''error'' ''node not configured'' of
              Inl e \<Rightarrow> Inl e | Inr msg \<Rightarrow> Inr (node_error msg))
          else value_json what j ''result'' (JObj []))"

definition resolve :: "what \<Rightarrow> (string \<Rightarrow> exn + json) \<Rightarrow> exn + string \<Rightarrow> exn + json" where
  "resolve what parse reply =
     (case resolve_body what parse reply of
        Inl (StdException w) \<Rightarrow> Inr (node_error (''node module unreachable: '' @ w))
      | r \<Rightarrow> r)"

section \<open>The module's events\<close>

text \<open>
  \<^verbatim>\<open>emit\<close>: the runtime's events on the generated emitters. The text of a payload is the JSON library's
  \<^verbatim>\<open>dump()\<close>, which may throw.
\<close>

datatype host_event = WalletStateChanged string | JobFinished string string

definition emit_event :: "(json \<Rightarrow> exn + string) \<Rightarrow> what \<Rightarrow> string \<Rightarrow> json \<Rightarrow> exn + host_event option" where
  "emit_event dump what name payload =
     (if name = ''walletStateChanged'' then
        (case dump payload of Inl e \<Rightarrow> Inl e | Inr txt \<Rightarrow> Inr (Some (WalletStateChanged txt)))
      else if name = ''jobFinished'' then
        (case value_str what payload ''jobId'' [] of Inl e \<Rightarrow> Inl e | Inr i \<Rightarrow>
         case value_str what payload ''state'' [] of Inl e \<Rightarrow> Inl e | Inr st \<Rightarrow> Inr (Some (JobFinished i st)))
      else Inr None)"

section \<open>The methods on tickets\<close>

definition startJob_method :: "what \<Rightarrow> string \<Rightarrow> string \<Rightarrow> json \<Rightarrow> u64 list \<Rightarrow> tickets \<Rightarrow> (exn + std_result) \<times> tickets" where
  "startJob_method what walletsDir kind params draws t =
     (let (answer, t') = startJob walletsDir kind params draws t in (fromJson what answer, t'))"

definition jobStatus_method :: "string \<Rightarrow> string \<Rightarrow> tickets \<Rightarrow> json" where
  "jobStatus_method i receipt t = jobStatus i receipt t"

definition jobResult_method :: "what \<Rightarrow> string \<Rightarrow> string \<Rightarrow> tickets \<Rightarrow> exn + std_result" where
  "jobResult_method what i receipt t = fromJson what (jobResult i receipt t)"

definition ackJob_method :: "string \<Rightarrow> string \<Rightarrow> tickets \<Rightarrow> bool \<times> tickets" where
  "ackJob_method i receipt t = ackJob i receipt t"

definition cancelJob_method :: "string \<Rightarrow> string \<Rightarrow> tickets \<Rightarrow> bool \<times> tickets" where
  "cancelJob_method i receipt t = cancelJob i receipt t"

definition listWallets_method :: "string \<Rightarrow> string list option \<Rightarrow> json" where
  "listWallets_method dir entries = listWallets dir entries"

section \<open>The methods on the wallet\<close>

datatype api_call =
    ApiStatus
  | ApiBalance i64
  | ApiUnlockedBalance i64
  | ApiAddress i64 i64
  | ApiSubaddresses i64
  | ApiCreateSubaddress i64 string
  | ApiSetSubaddressLabel i64 i64 string
  | ApiHistory
  | ApiAddressValid string string
  | ApiRevealSeed string
  | ApiRevealViewKey string
  | ApiWalletExists string

datatype api_answer = LogosJson json | LogosString string | LogosBool bool | LogosResult std_result

definition as_result :: "world \<Rightarrow> json run \<Rightarrow> api_answer run" where
  "as_result W m = bindM m (\<lambda>j. bindM (liftM (fromJson (w_what W) j)) (\<lambda>r. retM (LogosResult r)))"

fun api :: "world \<Rightarrow> api_call \<Rightarrow> api_answer run" where
  "api W ApiStatus = bindM (status W) (\<lambda>j. retM (LogosJson j))"
| "api W (ApiBalance a) = bindM (balance W (index32 a)) (\<lambda>b. retM (LogosString b))"
| "api W (ApiUnlockedBalance a) = bindM (unlockedBalance W (index32 a)) (\<lambda>b. retM (LogosString b))"
| "api W (ApiAddress a i) = bindM (address W (index64 a) (index64 i)) (\<lambda>x. retM (LogosString x))"
| "api W (ApiSubaddresses a) = bindM (subaddresses W (index32 a)) (\<lambda>j. retM (LogosJson j))"
| "api W (ApiCreateSubaddress a label) = as_result W (createSubaddress W (index32 a) label)"
| "api W (ApiSetSubaddressLabel a i label) = as_result W (setSubaddressLabel W (index32 a) (index32 i) label)"
| "api W ApiHistory = bindM (history W) (\<lambda>j. retM (LogosJson j))"
| "api W (ApiAddressValid addr network) = retM (LogosBool (addressValid addr network))"
| "api W (ApiRevealSeed password) = as_result W (revealSeed W password)"
| "api W (ApiRevealViewKey password) = as_result W (revealViewKey W password)"
| "api W (ApiWalletExists name) = bindM (walletExists W name) (\<lambda>b. retM (LogosBool b))"

section \<open>The module's life\<close>

definition onContextReady :: "world \<Rightarrow> string \<Rightarrow> unit run" where
  "onContextReady W persistence =
     (if persistence = [] then retM ()
      else let dir = path_join persistence ''wallets'' in
        thenM (callU W (FsCreateDirectories dir))
        (thenM (callU W (FsPermissions dir)) (setWalletsDir dir)))"

definition libraryVersion :: "world \<Rightarrow> string \<Rightarrow> json" where
  "libraryVersion W module_version =
     JObj [(''module'', JStr module_version), (''monero_c'', JStr (w_version W)),
       (''license'', JStr ''LGPL-3.0 (monero_c, dynamically linked)'')]"

section \<open>Facts\<close>

lemma fromJson_err: "fromJson what (err e) = Inr \<lparr>sr_success = False, sr_value = JNull, sr_error = e\<rparr>"
  by (simp add: fromJson_def err_def value_simps)

lemma fromJson_ok: "fromJson what (ok_result r) = Inr \<lparr>sr_success = True, sr_value = r, sr_error = []\<rparr>"
  by (simp add: fromJson_def ok_result_def value_simps Let_def)

end
