(* ===== verification/Protocol.thy ===== *)
theory Protocol
  imports Worker Module_Api
begin

text \<open>
  The locking discipline as a checker of histories: the order of the two locks, what may be called
  while one is held, and which calls into wallet2 need the handle exclusively and its refresh
  paused. Every operation is then shown to stay inside it, on every path and whatever the engine
  answers or throws.
\<close>

section \<open>The checker\<close>

text \<open>Whether the handle is held and how, whether the state lock is, and the wallet whose refresh is paused.\<close>

record hold =
  h_handle :: "lock_mode option"
  h_state :: bool
  h_paused :: "handle option"

definition free :: hold where
  "free = \<lparr>h_handle = None, h_state = False, h_paused = None\<rparr>"

text \<open>
  What a call on a wallet needs. In the strict discipline every call needs the handle, and those
  that configure the wallet need it exclusively; the loose one is for a wallet no reader has.
\<close>

fun wallet_call_ok :: "bool \<Rightarrow> hold \<Rightarrow> handle \<Rightarrow> wallet_call \<Rightarrow> bool" where
  "wallet_call_ok strict h w (W_createTransaction a b c d e f g i) \<longleftrightarrow> h_handle h = Some Exclusive \<and> h_paused h = Some w"
| "wallet_call_ok strict h w (W_setPassword p) \<longleftrightarrow> h_handle h = Some Exclusive \<and> h_paused h = Some w"
| "wallet_call_ok strict h w (W_addSubaddress a l) \<longleftrightarrow> h_handle h = Some Exclusive"
| "wallet_call_ok strict h w (W_setSubaddressLabel a i l) \<longleftrightarrow> h_handle h = Some Exclusive"
| "wallet_call_ok strict h w W_rescanBlockchainAsync \<longleftrightarrow> h_handle h = Some Exclusive"
| "wallet_call_ok strict h w W_pauseRefresh \<longleftrightarrow> (strict \<longrightarrow> h_handle h \<noteq> None)"
| "wallet_call_ok strict h w W_stop \<longleftrightarrow> (strict \<longrightarrow> h_handle h \<noteq> None)"
| "wallet_call_ok strict h w W_refresh \<longleftrightarrow> (strict \<longrightarrow> h_handle h \<noteq> None)"
| "wallet_call_ok strict h w (W_setOffline True) \<longleftrightarrow> (strict \<longrightarrow> h_handle h \<noteq> None)"
| "wallet_call_ok strict h w _ \<longleftrightarrow> (strict \<longrightarrow> h_handle h = Some Exclusive)"

fun allowed :: "bool \<Rightarrow> hold \<Rightarrow> event \<Rightarrow> bool" where
  "allowed strict h (Lock HandleMu m) \<longleftrightarrow> h_handle h = None \<and> \<not> h_state h"
| "allowed strict h (Lock StateMu m) \<longleftrightarrow> \<not> h_state h"
| "allowed strict h (TryLockShared mu) \<longleftrightarrow> h_handle h = None \<and> \<not> h_state h"
| "allowed strict h (Unlock HandleMu) \<longleftrightarrow> h_handle h \<noteq> None \<and> \<not> h_state h"
| "allowed strict h (Unlock StateMu) \<longleftrightarrow> h_state h"
| "allowed strict h ClockNow \<longleftrightarrow> True"
| "allowed strict h (SleepMs n) \<longleftrightarrow> h_handle h = None \<and> \<not> h_state h"
| "allowed strict h (Resolve network) \<longleftrightarrow> h_handle h = None \<and> \<not> h_state h"
| "allowed strict h (NotifyOpen network opn) \<longleftrightarrow> h_handle h = None \<and> \<not> h_state h"
| "allowed strict h (Wallet w c) \<longleftrightarrow> \<not> h_state h \<and> wallet_call_ok strict h w c"
| "allowed strict h (WalletRead w r) \<longleftrightarrow> \<not> h_state h \<and> (strict \<longrightarrow> h_handle h \<noteq> None)"
| "allowed strict h (PendingTx pt (PT_commit f o')) \<longleftrightarrow> h_handle h = Some Exclusive \<and> \<not> h_state h \<and> h_paused h \<noteq> None"
| "allowed strict h (PendingTx pt c) \<longleftrightarrow> h_handle h = Some Exclusive \<and> \<not> h_state h"
| "allowed strict h (TxHistory t c) \<longleftrightarrow> h_handle h \<noteq> None \<and> \<not> h_state h"
| "allowed strict h (TxInfo t c) \<longleftrightarrow> h_handle h \<noteq> None \<and> \<not> h_state h"
| "allowed strict h _ \<longleftrightarrow> \<not> h_state h"

fun after :: "event \<Rightarrow> hold \<Rightarrow> hold" where
  "after (Lock HandleMu m) h = h\<lparr>h_handle := Some m\<rparr>"
| "after (Lock StateMu m) h = h\<lparr>h_state := True\<rparr>"
| "after (Unlock HandleMu) h = h\<lparr>h_handle := None\<rparr>"
| "after (Unlock StateMu) h = h\<lparr>h_state := False\<rparr>"
| "after (Wallet w W_pauseRefresh) h = h\<lparr>h_paused := Some w\<rparr>"
| "after (Wallet w W_startRefresh) h = h\<lparr>h_paused := None\<rparr>"
| "after _ h = h"

text \<open>The history, newest event first: what is held after it, or \<open>None\<close> once a rule was broken.\<close>

primrec protocol :: "bool \<Rightarrow> trace \<Rightarrow> hold option" where
  "protocol strict [] = Some free"
| "protocol strict (ev # tr) = (case protocol strict tr of
     None \<Rightarrow> None | Some h \<Rightarrow> if allowed strict h ev then Some (after ev h) else None)"

section \<open>Programs that stay inside\<close>

definition inside :: "bool \<Rightarrow> lock_mode option \<Rightarrow> bool \<Rightarrow> handle option set \<Rightarrow> rt \<Rightarrow> bool" where
  "inside strict hm sm Z s \<longleftrightarrow> (\<exists>z\<in>Z. protocol strict (hist s) = Some \<lparr>h_handle = hm, h_state = sm, h_paused = z\<rparr>)"

named_theorems disc "programs that stay inside the locking discipline"

fun plain :: "event \<Rightarrow> bool" where
  "plain (Lock mu m) = False"
| "plain (Unlock mu) = False"
| "plain _ = True"

lemma after_plain: "plain ev \<Longrightarrow> after ev h = h\<lparr>h_paused := h_paused (after ev h)\<rparr>"
  by (cases "(ev, h)" rule: after.cases) auto

lemma inside_event:
  assumes "inside strict hm sm Z s" "plain ev"
    "\<And>z. z \<in> Z \<Longrightarrow> allowed strict \<lparr>h_handle = hm, h_state = sm, h_paused = z\<rparr> ev"
    "\<And>z. z \<in> Z \<Longrightarrow> h_paused (after ev \<lparr>h_handle = hm, h_state = sm, h_paused = z\<rparr>) \<in> Z"
  shows "inside strict hm sm Z (s\<lparr>hist := ev # hist s\<rparr>)"
proof -
  from assms(1) obtain z where z: "z \<in> Z" "protocol strict (hist s) = Some \<lparr>h_handle = hm, h_state = sm, h_paused = z\<rparr>"
    by (auto simp: inside_def)
  let ?z = "h_paused (after ev \<lparr>h_handle = hm, h_state = sm, h_paused = z\<rparr>)"
  have "after ev \<lparr>h_handle = hm, h_state = sm, h_paused = z\<rparr> = \<lparr>h_handle = hm, h_state = sm, h_paused = ?z\<rparr>"
    using after_plain [OF assms(2), of "\<lparr>h_handle = hm, h_state = sm, h_paused = z\<rparr>"] by simp
  then show ?thesis
    using z assms(3,4) by (auto simp: inside_def)
qed

lemma disc_call [disc]:
  assumes "plain ev" "\<And>z. z \<in> Z \<Longrightarrow> allowed strict \<lparr>h_handle = hm, h_state = sm, h_paused = z\<rparr> ev"
    "\<And>z. z \<in> Z \<Longrightarrow> h_paused (after ev \<lparr>h_handle = hm, h_state = sm, h_paused = z\<rparr>) \<in> Z"
  shows "keeps (inside strict hm sm Z) (call W ans ev)" "keeps (inside strict hm sm Z) (callU W ev)"
    "keeps (inside strict hm sm Z) (logM ev)"
  by (intro keeps_call keeps_callU keeps_log inside_event; use assms in simp)+

lemma disc_now [disc]: "keeps (inside strict hm sm Z) (nowM W)"
  by (intro keeps_now inside_event) simp_all

lemma disc_mod [disc]: "(\<And>s. hist (f s) = hist s) \<Longrightarrow> keeps (inside strict hm sm Z) (modM f)"
  by (rule keeps_mod) (simp add: inside_def)

lemma disc_handle [disc]:
  "keeps (inside strict (Some md) False Z) body \<Longrightarrow> keeps (inside strict None False Z) (with_lock HandleMu md body)"
  by (rule keepsI) (auto simp: wp inside_def elim!: wp_keeps)

lemma disc_state [disc]:
  "keeps (inside strict hm True Z) body \<Longrightarrow> keeps (inside strict hm False Z) (with_state body)"
  by (rule keepsI) (auto simp: wp inside_def elim!: wp_keeps)

lemma disc_try [disc]:
  "keeps (inside strict None False Z) busy \<Longrightarrow> keeps (inside strict (Some Shared) False Z) body \<Longrightarrow>
   keeps (inside strict None False Z) (try_shared W busy body)"
  unfolding try_shared_def by (intro keeps disc) auto

text \<open>Inside the pause, the refresh of that wallet is paused; after it, it is not.\<close>

lemma disc_pause [disc]:
  assumes "w \<noteq> 0 \<Longrightarrow> keeps (inside strict (Some Exclusive) False {Some w}) body" "w \<noteq> 0" "None \<in> Z"
    "Some w \<in> Z"
  shows "keeps (inside strict (Some Exclusive) False Z) (with_pause W w body)"
proof (rule keepsI)
  fix s assume "inside strict (Some Exclusive) False Z s"
  then have paused: "inside strict (Some Exclusive) False {Some w} (s\<lparr>hist := Wallet w W_pauseRefresh # hist s\<rparr>)"
    by (auto simp: inside_def)
  note body = keeps_wp [OF assms(1) [OF assms(2)] paused]
  have start: "inside strict (Some Exclusive) False {Some w} t \<Longrightarrow>
      inside strict (Some Exclusive) False Z (t\<lparr>hist := Wallet w W_startRefresh # hist t\<rparr>)" for t
    using assms(3) by (auto simp: inside_def)
  have pause: "inside strict (Some Exclusive) False Z (s\<lparr>hist := Wallet w W_pauseRefresh # hist s\<rparr>)"
    using paused assms(4) by (auto simp: inside_def)
  have "wp body (\<lambda>r t. w_throw W (hist t) (Wallet w W_startRefresh) = None \<longrightarrow> r \<noteq> Inl Terminated \<longrightarrow>
      inside strict (Some Exclusive) False Z (t\<lparr>hist := Wallet w W_startRefresh # hist t\<rparr>))
      (s\<lparr>hist := Wallet w W_pauseRefresh # hist s\<rparr>)"
    using start by (intro wp_mono [OF body]) auto
  with pause show "wp (with_pause W w body) (\<lambda>r t. r = Inl Terminated \<or> inside strict (Some Exclusive) False Z t) s"
    using assms(2) by (simp add: with_pause_def wp split: option.splits)
qed

lemma disc_take [disc]:
  assumes "\<not> sm"
  shows "keeps (inside strict hm sm Z) (takeM W p)" "keeps (inside strict hm sm Z) (takeJoined W p)"
  using assms unfolding takeM_def takeJoined_def by (intro keeps disc; simp)+

lemma disc_sockets [disc]: "\<not> sm \<Longrightarrow> keeps (inside strict hm sm Z) (socketsTo W hp drp)"
  unfolding socketsTo_def by (intro keeps disc) auto

section \<open>The operations\<close>

lemma disc_setState [disc]: "keeps (inside strict hm False Z) (setState W st e)"
  unfolding setState_def by (intro keeps disc) auto

lemma disc_notifyOpen [disc]: "keeps (inside strict None False Z) (notifyOpen W network opn)"
  unfolding notifyOpen_def by (intro keeps disc) auto

lemma disc_resetLocks [disc]: "keeps (inside strict None False Z) (resetLocksOnce W)"
  unfolding resetLocksOnce_def by (intro keeps disc) auto

lemma disc_waits [disc]: "keeps (inside strict hm False Z) sendsWaitForTor"
  unfolding sendsWaitForTor_def by (intro keeps disc)

lemma disc_verify [disc]: "keeps (inside strict hm False Z) (verifyPassword W pw)"
  unfolding verifyPassword_def by (intro keeps disc) auto

lemma disc_build [disc]: "w \<noteq> 0 \<Longrightarrow> keeps (inside strict (Some Exclusive) False {Some w})
    (buildTransaction W w dst paymentId amount priority account)"
  unfolding buildTransaction_def by (intro keeps disc) (auto simp: keep_tx_def)

lemma disc_sends:
  "keeps (inside strict None False UNIV) (doRescan W)"
  "keeps (inside strict None False UNIV) (doCreateTransaction W p)"
  "keeps (inside strict None False UNIV) (doCommit W p)"
  "keeps (inside strict None False UNIV) (doDispose W p)"
  "keeps (inside strict None False UNIV) (doChangePassword W p)"
proof -
  show "keeps (inside strict None False UNIV) (doRescan W)"
    unfolding doRescan_def by (intro keeps disc) auto
  show "keeps (inside strict None False UNIV) (doCreateTransaction W p)"
    unfolding doCreateTransaction_def by (intro keeps disc) auto
  show "keeps (inside strict None False UNIV) (doCommit W p)"
    unfolding doCommit_def commitTransaction_def by (intro keeps disc) (auto simp: drop_tx_def)
  show "keeps (inside strict None False UNIV) (doDispose W p)"
    unfolding doDispose_def by (intro keeps disc) (auto simp: drop_tx_def)
  show "keeps (inside strict None False UNIV) (doChangePassword W p)"
    unfolding doChangePassword_def by (intro keeps disc) auto
qed

lemma disc_close: "keeps (inside False None False UNIV) (doClose W)"
  unfolding doClose_def detach_wallet_def close_detached_def by (intro keeps disc) auto

lemma disc_move [disc]: "keeps (inside strict None False UNIV) (moveToTor W abandon resolved)"
  unfolding moveToTor_def relocate_def goOffline_def quieten_def redial_def dial_tor_def settle_route_def by (intro keeps disc) auto

lemma disc_tick: "keeps (inside strict None False UNIV) (tick W)"
  unfolding tick_def tick_decide_def by (intro keeps disc) auto

lemma disc_probe: "keeps (inside strict None False UNIV) (probe W)"
  unfolding probe_def by (intro keeps disc) (auto simp: Let_def)


lemma disc_or_return [disc]:
  "keeps (inside strict hm sm Z) m \<Longrightarrow> keeps (inside strict hm sm Z) k \<Longrightarrow> keeps (inside strict hm sm Z) (or_return m k)"
  unfolding or_return_def by (intro keeps) auto

lemma disc_plan [disc]: "keeps (inside strict None False Z) (plan_open W p)"
  unfolding plan_open_def by (intro keeps disc) auto

lemma disc_load [disc]: "keeps (inside strict None False Z) (load_wallet W k p pl path nettype)"
  unfolding load_wallet_def Let_def by (intro keeps disc) auto

lemma disc_check [disc]: "keeps (inside False None False Z) (check_loaded W pl nettype w)"
  unfolding check_loaded_def by (intro keeps disc) auto

lemma disc_dial [disc]: "keeps (inside False None False Z) (dial_wallet W k pl w)"
  unfolding dial_wallet_def by (intro keeps disc) auto

lemma disc_await_loop [disc]: "keeps (inside False None False Z) (await_loop W w n)"
  by (induction n) (simp_all, (intro keeps disc; simp)+)

lemma disc_await [disc]: "keeps (inside False None False Z) (await_node W pl w)"
  unfolding await_node_def by (intro keeps disc) auto

lemma disc_hand_over [disc]: "keeps (inside strict None False Z) (hand_over W pl addr nettype w)"
  unfolding hand_over_def by (intro keeps disc) auto

lemma disc_publish [disc]: "keeps (inside False None False UNIV) (publish_wallet W pl path nettype w)"
  unfolding publish_wallet_def by (intro keeps disc) auto

lemma disc_open: "keeps (inside False None False UNIV) (doOpenLike W k p)"
  unfolding doOpenLike_def by (intro keeps disc) auto

lemma disc_subaddresses_loop [disc]: "keeps (inside strict (Some md) False Z) (subaddresses_loop W w account is)"
  by (induction "is") (simp_all, (intro keeps disc; simp)+)

lemma disc_destinations_loop [disc]: "keeps (inside strict (Some md) False Z) (destinations_loop W t ds)"
  by (induction ds) (simp_all, (intro keeps disc; simp)+)

lemma disc_history_row [disc]: "keeps (inside strict (Some md) False Z) (history_row W t)"
  unfolding history_row_def by (intro keeps disc) auto

lemma disc_history_loop [disc]: "keeps (inside strict (Some md) False Z) (history_loop W t is)"
  by (induction "is") (simp_all, (intro keeps disc; simp)+)

lemma disc_reads:
  "keeps (inside strict None False UNIV) (status W)"
  "keeps (inside strict None False UNIV) (balance W account)"
  "keeps (inside strict None False UNIV) (unlockedBalance W account)"
  "keeps (inside strict None False UNIV) (address W acc index)"
  "keeps (inside strict None False UNIV) (subaddresses W account)"
  "keeps (inside strict None False UNIV) (createSubaddress W account label)"
  "keeps (inside strict None False UNIV) (setSubaddressLabel W account i label)"
  "keeps (inside strict None False UNIV) (history W)"
  "keeps (inside strict None False UNIV) (revealSeed W pw)"
  "keeps (inside strict None False UNIV) (revealViewKey W pw)"
  "keeps (inside strict None False UNIV) (walletExists W name)"
  unfolding status_def balance_def unlockedBalance_def address_def subaddresses_def createSubaddress_def
    setSubaddressLabel_def history_def revealSeed_def revealViewKey_def walletExists_def
  by (intro keeps disc; simp)+

lemma disc_dispatch: "keeps (inside False None False UNIV) (dispatch W k params)"
  unfolding dispatch_def by (simp add: disc_open disc_close disc_sends keeps)

lemma disc_run_job: "keeps (inside False None False UNIV) (run_job W k params)"
  unfolding run_job_def by (intro keeps disc disc_dispatch)

lemma disc_idle: "keeps (inside strict None False UNIV) (idle W)"
  unfolding idle_def by (intro keeps disc_tick)

lemma disc_announce: "keeps (inside strict None False Z) (announce W i st)"
  unfolding announce_def by (intro keeps disc) auto

lemma disc_shutdown: "keeps (inside strict None False UNIV) (shutdown_close W)"
  unfolding shutdown_close_def by (intro keeps disc) auto

lemma disc_context: "keeps (inside strict None False Z) (onContextReady W dir)"
  unfolding onContextReady_def setWalletsDir_def by (intro keeps disc) auto

lemma disc_api: "keeps (inside strict None False UNIV) (api W c)"
  by (cases c; simp add: as_result_def; intro keeps disc_reads)

lemma keeps_inside:
  assumes "keeps (inside strict None False UNIV) m" "protocol strict (hist s) = Some h" "h_handle h = None" "\<not> h_state h"
    "m s = (r, t)" "r \<noteq> Inl Terminated"
  shows "\<exists>z. protocol strict (hist t) = Some \<lparr>h_handle = None, h_state = False, h_paused = z\<rparr>"
proof -
  have "inside strict None False UNIV s" using assms(2-4) by (cases h) (auto simp: inside_def)
  from keepsD [OF assms(1) this assms(5,6)] show ?thesis by (auto simp: inside_def)
qed

section \<open>No operation leaves the discipline\<close>

text \<open>C7. The worker keeps the locking discipline: whatever the job, the engine's answers and what throws,
  the two locks are taken in order, never twice and given back; nothing but the clock is called under the
  state lock; the node module is asked, and the thread sleeps, with no lock held; a transaction is built or committed
  and a password set only with the handle exclusively held and that wallet's refresh paused.\<close>

theorem jobs_keep_discipline:
  assumes "protocol False (hist s) = Some h" "h_handle h = None" "\<not> h_state h"
    and "run_job W k params s = (r, t)" "r \<noteq> Inl Terminated"
  shows "\<exists>z. protocol False (hist t) = Some \<lparr>h_handle = None, h_state = False, h_paused = z\<rparr>"
  using keeps_inside [OF disc_run_job assms] .

lemma jobs_keep_discipline_witness:
  "\<exists>z. protocol False (hist (snd (run_job quiet_world ''rescan'' JNull init_rt)))
     = Some \<lparr>h_handle = None, h_state = False, h_paused = z\<rparr>"
proof -
  have "protocol False (hist init_rt) = Some free" by (simp add: init_rt_def)
  moreover have "fst (run_job quiet_world ''rescan'' JNull init_rt) \<noteq> Inl Terminated"
    by (simp add: run_job_def resetLocksOnce_def dispatch_def doRescan_def quiet_world_def init_rt_def with_lock_def
        thenM_def bindM_def getM_def retM_def logM_def modM_def finallyM_def catchM_def)
  ultimately show ?thesis
    using jobs_keep_discipline [of init_rt free quiet_world "''rescan''" JNull] by (simp add: free_def prod_eq_iff)
qed

text \<open>C29. The module's methods keep the strict discipline: they call into an open wallet only with the
  handle held, what changes it only with the handle exclusively held, and call nothing under the state lock.\<close>

theorem methods_keep_discipline:
  assumes "protocol True (hist s) = Some h" "h_handle h = None" "\<not> h_state h"
    and "api W c s = (r, t)" "r \<noteq> Inl Terminated"
  shows "\<exists>z. protocol True (hist t) = Some \<lparr>h_handle = None, h_state = False, h_paused = z\<rparr>"
  using keeps_inside [OF disc_api assms] .

lemma methods_keep_discipline_witness:
  "\<exists>z. protocol True (hist (snd (api quiet_world (ApiBalance 0) init_rt)))
     = Some \<lparr>h_handle = None, h_state = False, h_paused = z\<rparr>"
proof -
  have "protocol True (hist init_rt) = Some free" by (simp add: init_rt_def)
  moreover have "fst (api quiet_world (ApiBalance 0) init_rt) \<noteq> Inl Terminated"
    by (simp add: balance_def try_shared_def quiet_world_def init_rt_def with_lock_def
        thenM_def bindM_def getM_def retM_def logM_def modM_def finallyM_def)
  ultimately show ?thesis
    using methods_keep_discipline [of init_rt free quiet_world "ApiBalance 0"] by (simp add: free_def prod_eq_iff)
qed



end
