(* ===== verification/Outcomes.thy ===== *)
theory Outcomes
  imports Worker Ticket_Spec
begin

text \<open>
  What a job ends with: every job body answers with an error or a result, \<^verbatim>\<open>run\<close> turns what it
  throws into an error, and so every job the worker takes is settled.
\<close>

definition is_answer :: "json \<Rightarrow> bool" where
  "is_answer j \<longleftrightarrow> (\<exists>a. j = answer_json a)"

lemma is_answer [simp, yields]: "is_answer (err e)" "is_answer (ok_result r)"
  unfolding is_answer_def answer_json_def by (metis sum.case)+

text \<open>A job body written as early returns: the answers are at its leaves.\<close>

lemma yields_with_lock [yields]: "yields P body \<Longrightarrow> yields P (with_lock mu md body)"
  unfolding with_lock_def by (intro yields)

lemma yields_with_pause [yields]: "yields P body \<Longrightarrow> yields P (with_pause W w body)"
  unfolding with_pause_def by (intro yields)

lemma answers_sends:
  "yields is_answer (doClose W)" "yields is_answer (doRescan W)" "yields is_answer (doCreateTransaction W p)"
  "yields is_answer (doCommit W p)" "yields is_answer (doDispose W p)" "yields is_answer (doChangePassword W p)"
  unfolding doClose_def detach_wallet_def close_detached_def doRescan_def doCreateTransaction_def buildTransaction_def doCommit_def commitTransaction_def doDispose_def
    doChangePassword_def
  by (intro yields; simp)+

definition early :: "json + 'a \<Rightarrow> bool" where
  "early r \<longleftrightarrow> (\<forall>j. r = Inl j \<longrightarrow> is_answer j)"

lemma early_simps [simp]: "early (Inl j) = is_answer j" "early (Inr x)"
  by (simp_all add: early_def)

definition early_option :: "json option \<Rightarrow> bool" where
  "early_option r \<longleftrightarrow> (\<forall>j. r = Some j \<longrightarrow> is_answer j)"

lemma early_option_simps [simp]: "early_option (Some j) = is_answer j" "early_option None"
  by (simp_all add: early_option_def)

lemma answers_or_return: "yields early_option m \<Longrightarrow> yields is_answer k \<Longrightarrow> yields is_answer (or_return m k)"
  unfolding or_return_def by (rule yields_bind_strong [of early_option]) (auto simp: early_option_def intro: yields split: option.splits)

lemma answers_plan: "yields early (plan_open W p)"
  unfolding plan_open_def by (intro yields; simp)

lemma answers_load: "yields early (load_wallet W k p pl path nettype)"
  unfolding load_wallet_def Let_def by (intro yields; simp)

lemma answers_phases:
  "yields early_option (check_loaded W pl nettype w)" "yields early_option (dial_wallet W k pl w)"
  "yields early_option (await_node W pl w)" "yields is_answer (publish_wallet W pl path nettype w)"
  unfolding check_loaded_def dial_wallet_def await_node_def publish_wallet_def
  by (intro yields; simp)+

lemma answers_open: "yields is_answer (doOpenLike W k p)"
proof -
  have inner: "yields is_answer (case r of Inl j \<Rightarrow> retM j | Inr w \<Rightarrow>
      or_return (check_loaded W pl n w) (or_return (dial_wallet W k pl w)
      (or_return (await_node W pl w) (publish_wallet W pl path n w))))" if "early r" for r pl n path
    using that by (cases r) (auto intro: yields answers_or_return answers_phases)
  show ?thesis
    unfolding doOpenLike_def Let_def
    apply (rule yields_bind_strong [OF answers_plan])
    subgoal for r
      by (cases r) (auto intro!: yields yields_bind_strong [OF answers_load] inner)
    done
qed

lemma answers_dispatch: "k \<in> set kinds \<Longrightarrow> yields is_answer (dispatch W k params)"
  unfolding dispatch_def by (intro yields_if answers_open answers_sends) (simp add: kinds_def)

text \<open>Before the body, nothing of \<^verbatim>\<open>run\<close> throws; after it, everything is caught.\<close>

lemma throws_reset: "throws ((=) Terminated) (resetLocksOnce W)"
  unfolding resetLocksOnce_def notifyOpen_def with_lock_def logM_def by (intro throws)

lemma throws_run: "throws ((=) Terminated) (run_job W k params)"
  unfolding run_job_def by (intro throws throws_reset)

lemma answers_run: "k \<in> set kinds \<Longrightarrow> yields is_answer (run_job W k params)"
  unfolding run_job_def by (intro yields answers_dispatch) simp_all

lemma run_outcome:
  assumes "k \<in> set kinds"
  shows "fst (run_job W k params s) = Inl Terminated \<or> (\<exists>a. fst (run_job W k params s) = Inr (answer_json a))"
  using answers_run [OF assms, of W params] throws_run [of W k params]
  by (cases "fst (run_job W k params s)") (auto simp: yields_iff throws_iff is_answer_def)

text \<open>Every job that runs is settled: whatever the engine answers or throws during the body, unless the
  process is terminated the job ends in the state "done" or "failed", with the result or the error of the body.\<close>

theorem every_job_settles:
  assumes "k \<in> set kinds" "run_job W k params s = (r, s')" "r \<noteq> Inl Terminated"
  shows "\<exists>out st t'. r = Inr out \<and> settle wh p out t = (Inr st, t') \<and> st \<in> {''done'', ''failed''} \<and>
    j_state (heap t' p) = st"
proof -
  obtain a where r: "r = Inr (answer_json a)" using run_outcome [OF assms(1), of W params s] assms(2,3) by auto
  show ?thesis
    unfolding r using settled_job(4) [of a "heap t p"] by (auto simp: settle_answer split: sum.splits)
qed

lemma every_job_settles_witness:
  "\<exists>out st t'. fst (run_job quiet_world ''close_wallet'' JNull init_rt) = Inr out \<and>
     settle (\<lambda>_ _. []) 0 out init_tickets = (Inr st, t') \<and> st \<in> {''done'', ''failed''}"
proof -
  have "fst (run_job quiet_world ''close_wallet'' JNull init_rt) \<noteq> Inl Terminated"
    by (simp add: run_job_def resetLocksOnce_def dispatch_def doClose_def detach_wallet_def quiet_world_def init_rt_def with_lock_def
        thenM_def bindM_def getM_def retM_def logM_def modM_def finallyM_def catchM_def)
  then show ?thesis
    using every_job_settles [of "''close_wallet''" quiet_world JNull init_rt "fst (run_job quiet_world ''close_wallet'' JNull init_rt)"
      "snd (run_job quiet_world ''close_wallet'' JNull init_rt)" "\<lambda>_ _. []" 0 init_tickets]
    by (auto simp: kinds_def)
qed

end
