(* ===== verification/Invariants.thy ===== *)
theory Invariants
  imports Worker Module_Api
begin

text \<open>
  The interface of a condition on the runtime that only a few of its actions can break: those that
  set the wallet, its route or the table of transactions, and the engine calls that choose where
  wallet2 dials. What keeps such a condition is proved once here, for every operation that does none of
  that; the conditions themselves are its instances (\<open>Privacy\<close>, \<open>Pending\<close>).
\<close>

text \<open>The calls that choose where wallet2 dials, and whether it trusts what answers.\<close>

fun dials :: "event \<Rightarrow> bool" where
  "dials (Wallet w (W_init a n u p s l x)) = True"
| "dials (Wallet w (W_setOffline b)) = True"
| "dials (Wallet w (W_setTrustedDaemon b)) = b"
| "dials _ = False"

definition same_core :: "rt \<Rightarrow> rt \<Rightarrow> bool" where
  "same_core s t \<longleftrightarrow> m_wallet t = m_wallet s \<and> m_route t = m_route s \<and> m_pendingTx t = m_pendingTx s
     \<and> m_nextTx t = m_nextTx s \<and> hist t = hist s"

locale rt_invariant =
  fixes I :: "rt \<Rightarrow> bool"
  assumes event: "I s \<Longrightarrow> \<not> dials ev \<Longrightarrow> I (s\<lparr>hist := ev # hist s\<rparr>)"
    and other_fields: "I s \<Longrightarrow> same_core s t \<Longrightarrow> I t"
    and drop: "I s \<Longrightarrow> I (drop_tx k s)"
begin

lemma core_mod: "(\<And>s. same_core s (f s)) \<Longrightarrow> keeps I (modM f)"
  by (rule keeps_mod) (rule other_fields)

lemma drop_mod: "keeps I (modM (drop_tx k))"
  by (rule keeps_mod) (rule drop)

lemma base:
  "\<not> dials ev \<Longrightarrow> keeps I (logM ev)" "\<not> dials ev \<Longrightarrow> keeps I (call W ans ev)" "\<not> dials ev \<Longrightarrow> keeps I (callU W ev)"
  "keeps I (nowM W)"
  by (intro keeps_log keeps_call keeps_callU keeps_now event; simp)+

lemma locked: "keeps I body \<Longrightarrow> keeps I (with_lock mu md body)"
  unfolding with_lock_def by (intro keeps base) simp_all

lemma tried: "keeps I busy \<Longrightarrow> keeps I body \<Longrightarrow> keeps I (try_shared W busy body)"
  unfolding try_shared_def by (intro keeps base locked) simp_all

lemma taken: "keeps I (takeM W p)" "keeps I (takeJoined W p)"
  unfolding takeM_def takeJoined_def by (intro keeps base; simp)+

lemma sockets: "keeps I (socketsTo W hp drp)"
  unfolding socketsTo_def by (intro keeps base) simp_all

lemma paused: "keeps I body \<Longrightarrow> keeps I (with_pause W w body)"
  unfolding with_pause_def by (intro keeps base) simp_all

lemmas primitives = base locked tried taken sockets paused drop_mod core_mod

lemma helpers:
  "keeps I (setState W st e)" "keeps I (notifyOpen W network opn)" "keeps I (resetLocksOnce W)"
  "keeps I sendsWaitForTor" "keeps I (verifyPassword W pw)" "keeps I (setWalletsDir dir)"
  unfolding setState_def resetLocksOnce_def notifyOpen_def sendsWaitForTor_def verifyPassword_def setWalletsDir_def
  by (intro keeps primitives; simp add: same_core_def)+

lemma jobs:
  "keeps I (doRescan W)" "keeps I (doCommit W p)" "keeps I (doDispose W p)" "keeps I (doChangePassword W p)"
  unfolding doRescan_def doCommit_def commitTransaction_def doDispose_def doChangePassword_def
  by (intro keeps primitives helpers; simp)+

lemma loops:
  "keeps I (subaddresses_loop W w account js)" "keeps I (destinations_loop W t ds)"
proof -
  show "keeps I (subaddresses_loop W w account js)"
    by (induction js) (simp_all, (intro keeps primitives; simp)+)
  show "keeps I (destinations_loop W t ds)"
    by (induction ds) (simp_all, (intro keeps primitives; simp)+)
qed

lemma row: "keeps I (history_row W t)"
  unfolding history_row_def by (intro keeps primitives loops) simp_all

lemma rows: "keeps I (history_loop W h ds)"
  by (induction ds) (simp_all, (intro keeps primitives row; simp)+)

lemma reads:
  "keeps I (status W)" "keeps I (balance W a)" "keeps I (unlockedBalance W a)" "keeps I (address W acc i)"
  "keeps I (subaddresses W a)" "keeps I (createSubaddress W a label)" "keeps I (setSubaddressLabel W a j label)"
  "keeps I (history W)" "keeps I (revealSeed W pw)" "keeps I (revealViewKey W pw)" "keeps I (walletExists W name)"
  unfolding status_def balance_def unlockedBalance_def address_def subaddresses_def createSubaddress_def
    setSubaddressLabel_def history_def revealSeed_def revealViewKey_def walletExists_def
  by (intro keeps primitives helpers loops rows; simp)+

lemma methods: "keeps I (api W c)"
  by (cases c; simp add: as_result_def; intro keeps reads)

lemma life: "keeps I (onContextReady W dir)" "keeps I (announce W i st)"
  unfolding onContextReady_def announce_def by (intro keeps primitives helpers; simp)+

lemma probing: "keeps I (probe W)"
  unfolding probe_def by (intro keeps primitives) (simp_all add: same_core_def Let_def)

lemma deciding: "keeps I (tick_decide W synced height now)"
  unfolding tick_decide_def by (intro keeps primitives) (simp_all add: same_core_def)

lemma planning: "keeps I (plan_open W p)"
  unfolding plan_open_def by (intro keeps primitives) simp_all

lemma loading: "keeps I (load_wallet W k p pl path nettype)" "keeps I (check_loaded W pl nettype w)"
  unfolding load_wallet_def check_loaded_def Let_def by (intro keeps primitives helpers; simp)+

lemma awaiting_loop: "keeps I (await_loop W w n)"
  by (induction n) (simp_all, (intro keeps primitives; simp)+)

lemma awaiting: "keeps I (await_node W pl w)"
  unfolding await_node_def by (intro keeps primitives helpers awaiting_loop) simp_all

end

end
