(* ===== verification/Privacy.thy ===== *)
theory Privacy
  imports Invariants
begin

text \<open>
  Where wallet2 dials: on a Tor route never in the clear. The last \<^verbatim>\<open>init\<close> of a wallet and whether
  it is offline are read off the history; the invariant ties them to the route the runtime reports and
  gates sends on.
\<close>

fun init_of :: "handle \<Rightarrow> event \<Rightarrow> (string \<times> string) option" where
  "init_of w (Wallet w' (W_init a n u p s l x)) = (if w' = w then Some (a, x) else None)"
| "init_of w _ = None"

fun offline_of :: "handle \<Rightarrow> event \<Rightarrow> bool option" where
  "offline_of w (Wallet w' (W_setOffline b)) = (if w' = w then Some b else None)"
| "offline_of w _ = None"

text \<open>The daemon address and the proxy of the last \<^verbatim>\<open>init\<close>; the last \<^verbatim>\<open>setOffline\<close>.\<close>

primrec last_init :: "handle \<Rightarrow> trace \<Rightarrow> (string \<times> string) option" where
  "last_init w [] = None"
| "last_init w (ev # tr) = (case init_of w ev of Some i \<Rightarrow> Some i | None \<Rightarrow> last_init w tr)"

primrec offline :: "handle \<Rightarrow> trace \<Rightarrow> bool" where
  "offline w [] = False"
| "offline w (ev # tr) = (case offline_of w ev of Some b \<Rightarrow> b | None \<Rightarrow> offline w tr)"

text \<open>Dialled through the proxy of a node module that has Tor running.\<close>

definition through_tor :: "handle \<Rightarrow> trace \<Rightarrow> bool" where
  "through_tor w tr \<longleftrightarrow> (\<exists>u p. p \<noteq> [] \<and> p \<noteq> ''tor'' \<and> last_init w tr = Some (u, c_str (proxyHostPort p)))"

definition secure :: "rt \<Rightarrow> bool" where
  "secure s \<longleftrightarrow> (m_wallet s \<noteq> 0 \<longrightarrow>
     (m_route s = Tor \<longrightarrow> through_tor (m_wallet s) (hist s)) \<and>
     (m_route s = WaitingForTor \<longrightarrow> offline (m_wallet s) (hist s) \<or> through_tor (m_wallet s) (hist s)))"

section \<open>An instance of the interface\<close>

lemma not_dials: "\<not> dials ev \<Longrightarrow> init_of w ev = None \<and> offline_of w ev = None"
  by (cases "(w, ev)" rule: init_of.cases; cases "(w, ev)" rule: offline_of.cases) auto

text \<open>Any condition on the wallet, the route and where each wallet dials.\<close>

definition dialling :: "(handle \<Rightarrow> route \<Rightarrow> (handle \<Rightarrow> (string \<times> string) option) \<Rightarrow> (handle \<Rightarrow> bool) \<Rightarrow> bool) \<Rightarrow> rt \<Rightarrow> bool" where
  "dialling P s \<longleftrightarrow> P (m_wallet s) (m_route s) (\<lambda>w. last_init w (hist s)) (\<lambda>w. offline w (hist s))"

lemma dialling_invariant: "rt_invariant (dialling P)"
  by unfold_locales (auto simp: dialling_def same_core_def drop_tx_def not_dials)

interpretation dl: rt_invariant "dialling P" for P
  by (rule dialling_invariant)

lemma dialling_wp: "keeps (dialling P) m \<Longrightarrow> dialling P s \<Longrightarrow> wp m (\<lambda>r t. r = Inl Terminated \<or> dialling P t) s"
  by (rule keeps_wp)

lemma secure_dialling: "secure = dialling (\<lambda>w r i off. w \<noteq> 0 \<longrightarrow>
     (r = Tor \<longrightarrow> (\<exists>u p. p \<noteq> [] \<and> p \<noteq> ''tor'' \<and> i w = Some (u, c_str (proxyHostPort p)))) \<and>
     (r = WaitingForTor \<longrightarrow> off w \<or> (\<exists>u p. p \<noteq> [] \<and> p \<noteq> ''tor'' \<and> i w = Some (u, c_str (proxyHostPort p)))))"
  by (simp add: fun_eq_iff secure_def dialling_def through_tor_def)

interpretation sc: rt_invariant secure
  unfolding secure_dialling by (rule dialling_invariant)

section \<open>Closing\<close>

lemma secure_closed: "m_wallet s = 0 \<Longrightarrow> secure s"
  by (simp add: secure_def)

lemma secure_build: "keeps secure (buildTransaction W w dst pid amount priority account)"
  unfolding buildTransaction_def
  by (intro keeps sc.primitives keeps_mod) (simp_all add: secure_def keep_tx_def)

lemma secure_create: "keeps secure (doCreateTransaction W p)"
  unfolding doCreateTransaction_def by (intro keeps sc.primitives sc.helpers secure_build) simp_all

text \<open>With no wallet open, the route is free.\<close>

definition closed :: "rt \<Rightarrow> bool" where
  "closed s \<longleftrightarrow> m_wallet s = 0"

interpretation cl: rt_invariant closed
  by unfold_locales (auto simp: closed_def same_core_def drop_tx_def)

lemma closed_secure: "closed s \<Longrightarrow> secure s"
  by (simp add: closed_def secure_def)

lemma closed_mod: "(\<And>s. m_wallet (f s) = m_wallet s) \<Longrightarrow> keeps closed (modM f)"
  by (rule keeps_mod) (simp add: closed_def)

lemma keeps_closed: "keeps closed m \<Longrightarrow> triple closed m (\<lambda>_. closed) secure"
  by (rule triple_conseq [of closed _ "\<lambda>_. closed" closed]) (simp_all add: triple_keeps closed_secure)

lemma secure_from_closed: "triple P m (\<lambda>_. closed) secure \<Longrightarrow> triple P m (\<lambda>_. secure) secure"
  by (erule triple_conseq) (simp_all add: closed_secure)

lemma closed_secure_keeps: "keeps closed m \<Longrightarrow> triple closed m (\<lambda>_. secure) secure"
  by (rule triple_conseq [of closed _ "\<lambda>_. closed" closed]) (simp_all add: triple_keeps closed_secure)

lemma closed_close: "keeps closed (close_detached W w)"
  unfolding close_detached_def by (intro keeps cl.primitives cl.helpers closed_mod) simp_all

lemma detach: "triple secure (detach_wallet W) (\<lambda>r s. secure s \<and> (r \<noteq> None \<longrightarrow> closed s)) secure"
  unfolding detach_wallet_def
proof (rule triple_with_lock [where P' = secure])
  let ?Q = "\<lambda>r t. secure (t\<lparr>hist := Unlock HandleMu # hist t\<rparr>) \<and> (r \<noteq> None \<longrightarrow> closed (t\<lparr>hist := Unlock HandleMu # hist t\<rparr>))"
  and ?E = "\<lambda>t. secure (t\<lparr>hist := Unlock HandleMu # hist t\<rparr>)"
  have "triple secure (setState W Closing []) (\<lambda>_. secure) ?E"
    by (rule triple_conseq [of secure _ "\<lambda>_. secure" secure]) (simp_all add: triple_keeps sc.event sc.helpers)
  then have body: "triple secure (thenM (setState W Closing [])
      (thenM (modM (\<lambda>s. s\<lparr>m_wallet := 0, m_pendingTx := Map.empty\<rparr>)) (retM (Some w)))) ?Q ?E" for w
  proof (rule triple_then)
    show "triple secure (thenM (modM (\<lambda>s. s\<lparr>m_wallet := 0, m_pendingTx := Map.empty\<rparr>)) (retM (Some w))) ?Q ?E"
      by (rule triple_then [where R = closed, OF triple_mod triple_ret]) (simp_all add: closed_def secure_def)
  qed
  show "triple secure (bindM (getM m_wallet) (\<lambda>w. if w = 0 then retM None
      else thenM (setState W Closing []) (thenM (modM (\<lambda>s. s\<lparr>m_wallet := 0, m_pendingTx := Map.empty\<rparr>)) (retM (Some w)))))
      ?Q ?E"
    by (rule triple_bind [where R = "\<lambda>_. secure", OF triple_get], simp)
      (rule triple_if [OF triple_ret body], simp add: sc.event)
qed (simp add: sc.event)

lemma secure_close: "keeps secure (doClose W)"
  unfolding doClose_def triple_keeps [symmetric]
proof (rule triple_bind [OF detach])
  fix r :: "handle option"
  show "triple (\<lambda>s. secure s \<and> (r \<noteq> None \<longrightarrow> closed s))
      (case r of None \<Rightarrow> retM (err ''no wallet open'') | Some w \<Rightarrow> close_detached W w) (\<lambda>_. secure) secure"
    by (cases r) (auto intro: triple_ret triple_conseq [OF closed_secure_keeps [OF closed_close]])
qed

section \<open>The move to Tor\<close>

text \<open>A place of the move: the wallet and the route as they were, and a condition on where it dials.\<close>

definition dial_at :: "handle \<Rightarrow> route \<Rightarrow> ((string \<times> string) option \<Rightarrow> bool \<Rightarrow> bool) \<Rightarrow> rt \<Rightarrow> bool" where
  "dial_at w r P s \<longleftrightarrow> m_wallet s = w \<and> m_route s = r \<and> secure s \<and> P (last_init w (hist s)) (offline w (hist s))"

definition by_tor :: "(string \<times> string) option \<Rightarrow> bool" where
  "by_tor i \<longleftrightarrow> (\<exists>u p. p \<noteq> [] \<and> p \<noteq> ''tor'' \<and> i = Some (u, c_str (proxyHostPort p)))"

lemma through_tor_by: "through_tor w tr = by_tor (last_init w tr)"
  by (simp add: through_tor_def by_tor_def)

interpretation da: rt_invariant "dial_at w r P" for w r P
proof -
  have "dial_at w r P = dialling (\<lambda>w' r' i off. w' = w \<and> r' = r \<and> (w' \<noteq> 0 \<longrightarrow> (r' = Tor \<longrightarrow> by_tor (i w')) \<and>
      (r' = WaitingForTor \<longrightarrow> off w' \<or> by_tor (i w'))) \<and> P (i w) (off w))"
    by (auto simp: fun_eq_iff dial_at_def dialling_def secure_def through_tor_by)
  then show "rt_invariant (dial_at w r P)" by (simp add: dialling_invariant)
qed

lemma dial_secure: "dial_at w r P s \<Longrightarrow> secure s"
  by (simp add: dial_at_def)

lemma dial_weaken: "dial_at w r P s \<Longrightarrow> (\<And>i b. P i b \<Longrightarrow> P' i b) \<Longrightarrow> dial_at w r P' s"
  by (simp add: dial_at_def)

lemma dial_triple:
  "keeps (dial_at w r P) m \<Longrightarrow> triple (dial_at w r P) m (\<lambda>_. dial_at w r P) (dial_at w r (\<lambda>_ _. True))"
  by (rule triple_conseq [of "dial_at w r P" _ "\<lambda>_. dial_at w r P" "dial_at w r P"]) (auto simp: triple_keeps dial_at_def)

lemma go_offline_call:
  "triple (dial_at w r P) (callU W (Wallet w (W_setOffline True))) (\<lambda>_. dial_at w r (\<lambda>_ off. off)) (dial_at w r (\<lambda>_ _. True))"
  by (rule triple_callU) (auto simp: dial_at_def secure_def through_tor_by)

abbreviation unlocked :: "rt \<Rightarrow> rt" where
  "unlocked s \<equiv> s\<lparr>hist := Unlock HandleMu # hist s\<rparr>"

lemma dial_unlock: "dial_at w r P s \<Longrightarrow> (\<And>i b. P i b \<Longrightarrow> P' i b) \<Longrightarrow> dial_at w r P' (unlocked s)"
  by (rule dial_weaken [of _ _ P]) (simp_all add: da.event)

lemma from_secure: "(\<And>w r. triple (dial_at w r (\<lambda>_ _. True)) m Q E) \<Longrightarrow> triple secure m Q E"
  unfolding triple_def by (auto simp: dial_at_def)

text \<open>A program under the handle, which reads the wallet first.\<close>

lemma dial_locked:
  assumes "triple (dial_at w r P) (body w) (\<lambda>x s. dial_at w r (Q x) s) (dial_at w r (\<lambda>_ _. True))"
    and "w = 0 \<Longrightarrow> (\<And>i b. P i b \<Longrightarrow> Q y i b)"
  shows "triple (dial_at w r P) (with_lock HandleMu md (bindM (getM m_wallet) (\<lambda>v. if v = 0 then retM y else body v)))
    (\<lambda>x. dial_at w r (Q x)) (dial_at w r (\<lambda>_ _. True))"
proof (rule triple_with_lock [where P' = "dial_at w r P"])
  have body: "triple (dial_at w r P) (body w) (\<lambda>x s. dial_at w r (Q x) (unlocked s)) (\<lambda>s. dial_at w r (\<lambda>_ _. True) (unlocked s))"
    by (rule triple_conseq [OF assms(1)]) (simp_all add: da.event)
  show "triple (dial_at w r P) (bindM (getM m_wallet) (\<lambda>v. if v = 0 then retM y else body v))
      (\<lambda>x s. dial_at w r (Q x) (unlocked s)) (\<lambda>s. dial_at w r (\<lambda>_ _. True) (unlocked s))"
  proof (rule triple_bind [where R = "\<lambda>v s. v = w \<and> dial_at w r P s", OF triple_get])
    fix v
    show "triple (\<lambda>s. v = w \<and> dial_at w r P s) (if v = 0 then retM y else body v)
        (\<lambda>x s. dial_at w r (Q x) (unlocked s)) (\<lambda>s. dial_at w r (\<lambda>_ _. True) (unlocked s))"
      by (rule triple_facts [where b = "v = w"], simp, rule triple_if, rule triple_ret)
        (auto intro: triple_conseq [OF body] dial_unlock [OF _ assms(2)])
  qed (simp add: dial_at_def)
qed (simp add: da.event)

lemma quieten_dial:
  "triple (dial_at w r (\<lambda>_ _. True)) (quieten W abandon node w) (\<lambda>x. dial_at w r (\<lambda>_ off. off)) (dial_at w r (\<lambda>_ _. True))"
  unfolding quieten_def
proof -
  let ?D = "dial_at w r (\<lambda>_ _. True)"
  have drop: "keeps ?D (case jfind node ''catchUp'' of
      Some cu \<Rightarrow> whenM (abandon \<and> is_object cu) (bindM (socketsTo W (hostPort (str cu ''url'')) True) (\<lambda>_. retM ()))
    | None \<Rightarrow> retM ())"
    and quiet: "keeps ?D (callU W (Wallet w W_pauseRefresh))" "keeps ?D (callU W (Wallet w W_stop))"
      "keeps (dial_at w r (\<lambda>_ off. off)) (callU W (Wallet w W_refresh))"
    by (intro keeps da.primitives; simp)+
  show "triple ?D (thenM (callU W (Wallet w W_pauseRefresh)) (thenM (callU W (Wallet w W_stop))
      (thenM (case jfind node ''catchUp'' of
          Some cu \<Rightarrow> whenM (abandon \<and> is_object cu) (bindM (socketsTo W (hostPort (str cu ''url'')) True) (\<lambda>_. retM ()))
        | None \<Rightarrow> retM ())
      (thenM (callU W (Wallet w (W_setOffline True))) (thenM (callU W (Wallet w W_refresh)) (retM True))))))
      (\<lambda>x. dial_at w r (\<lambda>_ off. off)) ?D"
    by (rule triple_then [OF dial_triple [OF quiet(1)]], rule triple_then [OF dial_triple [OF quiet(2)]],
        rule triple_then [OF dial_triple [OF drop]], rule triple_then [OF go_offline_call],
        rule triple_then [OF dial_triple [OF quiet(3)]], rule triple_ret)
qed

lemma goOffline_dial:
  "triple (dial_at w r (\<lambda>_ _. True)) (goOffline W abandon node)
     (\<lambda>x. dial_at w r (\<lambda>_ off. x \<longrightarrow> off)) (dial_at w r (\<lambda>_ _. True))"
  unfolding goOffline_def
  by (rule dial_locked [where P = "\<lambda>_ _. True" and Q = "\<lambda>x _ off. x \<longrightarrow> off"])
    (auto intro: triple_conseq [OF quieten_dial] elim: dial_weaken)

text \<open>From the new \<^verbatim>\<open>init\<close> on, the wallet is dialled by Tor, online or not.\<close>

lemma online_call: "keeps (dial_at w r (\<lambda>i _. by_tor i)) (callU W (Wallet w (W_setOffline b)))"
  by (rule keeps_callU) (auto simp: dial_at_def secure_def through_tor_by)

lemma dial_tor_dial:
  assumes "proxy \<noteq> []" "proxy \<noteq> ''tor''"
  shows "triple (dial_at w r P) (dial_tor W url proxy w) (\<lambda>_. dial_at w r (\<lambda>i _. by_tor i)) (dial_at w r (\<lambda>_ _. True))"
  unfolding dial_tor_def
proof (rule triple_bind [where R = "\<lambda>_. dial_at w r (\<lambda>i _. by_tor i)"])
  have "by_tor (Some (u, c_str (proxyHostPort proxy)))" for u
    using assms by (auto simp: by_tor_def)
  then show "triple (dial_at w r P) (call W (w_bool W) (Wallet w (W_init (c_str (hostPort url)) 0 [] [] False False
      (c_str (proxyHostPort proxy))))) (\<lambda>_. dial_at w r (\<lambda>i _. by_tor i)) (dial_at w r (\<lambda>_ _. True))"
    by (intro triple_call) (auto simp: dial_at_def secure_def through_tor_by)
qed (rule dial_triple, intro keeps da.primitives online_call, simp_all)

lemma redial_dial:
  assumes "ready \<Longrightarrow> proxy \<noteq> [] \<and> proxy \<noteq> ''tor''"
  shows "triple (dial_at w r (\<lambda>_ off. off)) (redial W ready url proxy)
    (\<lambda>x. dial_at w r (\<lambda>i off. x \<noteq> None \<longrightarrow> (if ready then by_tor i else off))) (dial_at w r (\<lambda>_ _. True))"
  unfolding redial_def
proof (rule dial_locked [where P = "\<lambda>_ off. off" and Q = "\<lambda>x i off. x \<noteq> None \<longrightarrow> (if ready then by_tor i else off)"])
  show "triple (dial_at w r (\<lambda>_ off. off)) (if \<not> ready then retM (Some []) else dial_tor W url proxy w)
      (\<lambda>x. dial_at w r (\<lambda>i off. x \<noteq> None \<longrightarrow> (if ready then by_tor i else off))) (dial_at w r (\<lambda>_ _. True))"
    using assms by (intro triple_if triple_ret) (auto intro!: triple_conseq [OF dial_tor_dial] elim: dial_weaken)
qed simp

lemma settle_route_dial:
  "triple (dial_at w r (\<lambda>i off. if ready then by_tor i else off)) (settle_route W ready url proxy error) (\<lambda>_. secure) secure"
proof -
  let ?D = "dial_at w r (\<lambda>i off. if ready then by_tor i else off)"
  show ?thesis
    unfolding settle_route_def
    by (rule triple_with_lock [where P' = ?D], simp add: da.event,
        rule triple_bind [where R = "\<lambda>_. ?D", OF triple_now], simp add: da.event,
        rule triple_then [where R = secure, OF triple_mod triple_get])
      (auto simp: dial_at_def secure_def through_tor_by Let_def split: if_splits)
qed

lemma secure_settled:
  "triple (dial_at w r (\<lambda>i off. x \<noteq> None \<longrightarrow> (if ready then by_tor i else off)))
     (case x of None \<Rightarrow> retM () | Some error \<Rightarrow> bindM (settle_route W ready url proxy error) (\<lambda>cur.
        thenM (logM NotifyProbe) (setState W cur error))) (\<lambda>_. secure) secure"
proof (cases x)
  case (Some error)
  have "triple secure (thenM (logM NotifyProbe) (setState W cur error)) (\<lambda>_. secure) secure" for cur
    unfolding triple_keeps by (intro keeps sc.primitives sc.helpers) simp
  then show ?thesis using Some settle_route_dial by (simp add: triple_bind [where R = "\<lambda>_. secure"])
qed (simp, rule triple_ret, rule dial_secure)

lemma secure_relocate: "keeps secure (relocate W abandon node)"
  unfolding relocate_def Let_def triple_keeps [symmetric]
proof (rule from_secure, rule triple_bind [OF triple_conseq [OF goOffline_dial]], assumption, assumption, erule dial_secure)
  fix w r there
  show "triple (dial_at w r (\<lambda>_ off. there \<longrightarrow> off)) (if \<not> there then retM ()
      else bindM (redial W (tor_ready node) (str node ''url'') (str node ''proxy'')) (\<lambda>x.
        case x of None \<Rightarrow> retM () | Some error \<Rightarrow>
          bindM (settle_route W (tor_ready node) (str node ''url'') (str node ''proxy'') error) (\<lambda>cur.
            thenM (logM NotifyProbe) (setState W cur error)))) (\<lambda>_. secure) secure"
    by (rule triple_if, rule triple_ret, erule dial_secure, rule triple_bind [OF triple_conseq [OF redial_dial] secure_settled])
      (auto simp: tor_ready_def dial_secure elim: dial_weaken)
qed

lemma secure_move: "keeps secure (moveToTor W abandon resolved)"
  unfolding moveToTor_def by (intro keeps sc.primitives secure_relocate) simp_all

lemma secure_tick: "keeps secure (tick W)" "keeps secure (idle W)"
  unfolding idle_def tick_def by (intro keeps sc.primitives sc.helpers sc.deciding secure_move; simp)+

section \<open>Opening\<close>

text \<open>Nothing before the hand-over sets the wallet; what was dialled last is kept from \<^verbatim>\<open>init\<close> on.\<close>

definition dialled_as :: "open_plan \<Rightarrow> handle \<Rightarrow> rt \<Rightarrow> bool" where
  "dialled_as pl w s \<longleftrightarrow> closed s \<and> (\<exists>u. last_init w (hist s) = Some (u, c_str (op_dialProxy pl))) \<and>
     (op_route pl = WaitingForTor \<longrightarrow> offline w (hist s))"

interpretation ds: rt_invariant "dialled_as pl w" for pl w
proof -
  have "dialled_as pl w = dialling (\<lambda>w' r i off. w' = 0 \<and> (\<exists>u. i w = Some (u, c_str (op_dialProxy pl))) \<and>
      (op_route pl = WaitingForTor \<longrightarrow> off w))"
    by (simp add: fun_eq_iff dialled_as_def dialling_def closed_def)
  then show "rt_invariant (dialled_as pl w)" by (simp add: dialling_invariant)
qed

text \<open>A plan on a Tor route dials through the node module's proxy.\<close>

definition plan_ok :: "open_plan \<Rightarrow> bool" where
  "plan_ok pl \<longleftrightarrow> (op_route pl = Tor \<longrightarrow> (\<exists>p. p \<noteq> [] \<and> p \<noteq> ''tor'' \<and> op_dialProxy pl = proxyHostPort p))"

definition planned :: "json + open_plan \<Rightarrow> bool" where
  "planned r \<longleftrightarrow> (\<forall>pl. r = Inr pl \<longrightarrow> plan_ok pl)"

lemma planned_simps [simp]: "planned (Inl j)" "planned (Inr pl) = plan_ok pl"
  by (simp_all add: planned_def)

lemma plan_open_ok: "yields planned (plan_open W p)"
  unfolding plan_open_def
  by (intro yields) (auto simp: plan_ok_def choose_route_def split: if_splits)

lemma closed_calls: "keeps closed (call W ans ev)" "keeps closed (callU W ev)"
  by (intro keeps_call keeps_callU; simp add: closed_def)+

lemma closed_dialled: "dialled_as pl w s \<Longrightarrow> closed s"
  by (simp add: dialled_as_def)

lemma closed_load: "keeps closed (load_wallet W k p pl path nettype)" "keeps closed (check_loaded W pl nettype w)"
  "keeps closed (await_node W pl w)"
  by (intro cl.loading cl.awaiting)+

lemma triple_closed: "keeps closed m \<Longrightarrow> triple closed m (\<lambda>_. closed) closed"
  by (simp add: triple_keeps)

lemma triple_dialled: "keeps (dialled_as pl w) m \<Longrightarrow> triple (dialled_as pl w) m (\<lambda>_. dialled_as pl w) closed"
  by (rule triple_conseq [of "dialled_as pl w" _ "\<lambda>_. dialled_as pl w" "dialled_as pl w"])
    (simp_all add: triple_keeps closed_dialled)

lemma closed_dial: "triple closed (dial_wallet W k pl w) (\<lambda>x s. if x = None then dialled_as pl w s else closed s) closed"
  unfolding dial_wallet_def
proof (rule triple_then [OF triple_closed])
  let ?I = "\<lambda>s. closed s \<and> (\<exists>u. last_init w (hist s) = Some (u, c_str (op_dialProxy pl)))"
  let ?Q = "\<lambda>x s. if x = None then dialled_as pl w s else closed s"
  show "keeps closed (whenM (op_network pl = ''regtest'' \<and> k \<noteq> ''open_wallet'')
      (callU W (Wallet w (W_setRefreshFromBlockHeight 0))))"
    by (intro keeps closed_calls)
  have fail: "triple ?I (bindM (take_call W (WalletRead w W_errorString)) (\<lambda>e.
      thenM (bindM (call W (w_bool W) (WM (WM_closeWallet w (k \<noteq> ''open_wallet'')))) (\<lambda>_. retM ()))
      (thenM (setState W NoWallet e) (retM (Some (err (''init failed: '' @ e))))))) ?Q closed"
  proof (rule triple_conseq [of closed], rule triple_bind [OF triple_closed], intro keeps cl.primitives, simp)
    fix e
    show "triple closed (thenM (bindM (call W (w_bool W) (WM (WM_closeWallet w (k \<noteq> ''open_wallet'')))) (\<lambda>_. retM ()))
        (thenM (setState W NoWallet e) (retM (Some (err (''init failed: '' @ e)))))) ?Q closed"
      by (rule triple_then [OF triple_closed], intro keeps closed_calls, rule triple_then [OF triple_closed],
          rule cl.helpers, rule triple_ret) simp
  qed auto
  have go: "triple ?I (thenM (whenM (op_route pl = WaitingForTor) (callU W (Wallet w (W_setOffline True)))) m) ?Q closed"
    if m: "triple (dialled_as pl w) m ?Q closed" for m
    by (rule triple_then [OF triple_when [OF triple_callU] m]) (auto simp: dialled_as_def closed_def)
  have trust: "triple (dialled_as pl w) (bindM (if op_route pl = Direct then liftM (value_bool (w_what W) (op_node pl) ''trusted'' False)
      else retM False) (\<lambda>trusted. thenM (callU W (Wallet w (W_setTrustedDaemon (op_route pl = Direct \<and> trusted \<and> isLoopback (op_url pl)))))
      (retM None))) ?Q closed"
    by (rule triple_bind [OF triple_dialled], intro keeps, rule triple_then [OF triple_dialled], rule keeps_callU, simp add: dialled_as_def closed_def, rule triple_ret) simp
  show "triple closed (bindM (call W (w_bool W) (Wallet w (W_init (c_str (hostPort (op_dialUrl pl))) 0 [] [] False False
      (c_str (op_dialProxy pl))))) (\<lambda>ok. if \<not> ok then
         bindM (take_call W (WalletRead w W_errorString)) (\<lambda>e.
           thenM (bindM (call W (w_bool W) (WM (WM_closeWallet w (k \<noteq> ''open_wallet'')))) (\<lambda>_. retM ()))
           (thenM (setState W NoWallet e) (retM (Some (err (''init failed: '' @ e))))))
       else
         thenM (whenM (op_route pl = WaitingForTor) (callU W (Wallet w (W_setOffline True))))
         (bindM (if op_route pl = Direct then liftM (value_bool (w_what W) (op_node pl) ''trusted'' False)
             else retM False) (\<lambda>trusted.
           thenM (callU W (Wallet w (W_setTrustedDaemon (op_route pl = Direct \<and> trusted \<and> isLoopback (op_url pl)))))
             (retM None))))) ?Q closed"
    by (rule triple_bind [where R = "\<lambda>_. ?I", OF triple_call triple_if [OF fail go [OF trust]]])
      (simp_all add: closed_def)
qed

lemma hand_over_dial:
  assumes "plan_ok pl"
  shows "triple (dialled_as pl w) (hand_over W pl addr nettype w) (\<lambda>_. secure) secure"
proof (rule tripleI)
  fix s assume "dialled_as pl w s"
  then have "op_route pl = Tor \<Longrightarrow> through_tor w (hist s)" "op_route pl = WaitingForTor \<Longrightarrow> offline w (hist s)"
    using assms by (fastforce simp: plan_ok_def dialled_as_def through_tor_def)+
  then show "wp (hand_over W pl addr nettype w) (\<lambda>r t. case r of Inl e \<Rightarrow> e = Terminated \<or> secure t | Inr x \<Rightarrow> secure t) s"
    by (auto simp: hand_over_def wp secure_def through_tor_def)
qed

lemma publish_dial:
  assumes "plan_ok pl"
  shows "triple (dialled_as pl w) (publish_wallet W pl path nettype w) (\<lambda>_. secure) secure"
proof -
  have tail: "triple secure m (\<lambda>_. secure) secure" if "keeps secure m" for m :: "'a run"
    using that by (simp add: triple_keeps)
  have head: "triple (dialled_as pl w) m (\<lambda>_. dialled_as pl w) secure" if "keeps (dialled_as pl w) m" for m :: "'a run"
    by (rule triple_conseq [OF triple_dialled [OF that]]) (simp_all add: closed_secure)
  show ?thesis
    unfolding publish_wallet_def
    by (rule triple_then [OF head], rule ds.base, simp, rule triple_then [OF head], intro keeps ds.base, simp, simp,
        rule triple_bind [OF head], intro keeps ds.primitives, simp, rule triple_then [OF hand_over_dial [OF assms]],
        rule tail, intro keeps sc.primitives sc.helpers) simp_all
qed

lemma or_return_dial:
  assumes "triple closed m (\<lambda>x s. if x = None then P s else closed s) closed" "triple P k (\<lambda>_. secure) secure"
  shows "triple closed (or_return m k) (\<lambda>_. secure) secure"
  unfolding or_return_def
proof (rule triple_bind [OF triple_conseq [OF assms(1)]], assumption, assumption, erule closed_secure)
  fix x :: "json option"
  show "triple (\<lambda>s. if x = None then P s else closed s) (case x of Some j \<Rightarrow> retM j | None \<Rightarrow> k) (\<lambda>_. secure) secure"
    by (cases x) (auto intro: triple_ret closed_secure assms(2))
qed

lemma open_loaded:
  assumes "plan_ok pl"
  shows "triple closed (bindM (load_wallet W k p pl path nettype) (\<lambda>r. case r of
      Inl j \<Rightarrow> retM j
    | Inr w \<Rightarrow> or_return (check_loaded W pl nettype w) (or_return (dial_wallet W k pl w)
        (or_return (await_node W pl w) (publish_wallet W pl path nettype w))))) (\<lambda>_. secure) secure"
proof (rule triple_bind [OF keeps_closed [OF closed_load(1)]])
  fix r :: "json + handle"
  have await: "triple (dialled_as pl w) (or_return (await_node W pl w) (publish_wallet W pl path nettype w)) (\<lambda>_. secure) secure" for w
    unfolding or_return_def
  proof (rule triple_bind [where R = "\<lambda>_. dialled_as pl w"])
    show "triple (dialled_as pl w) (await_node W pl w) (\<lambda>_. dialled_as pl w) secure"
      by (rule triple_conseq [OF triple_dialled [OF ds.awaiting]]) (simp_all add: closed_secure)
    fix x :: "json option"
    show "triple (dialled_as pl w) (case x of Some j \<Rightarrow> retM j | None \<Rightarrow> publish_wallet W pl path nettype w) (\<lambda>_. secure) secure"
      by (cases x) (auto intro: triple_ret publish_dial [OF assms] closed_secure closed_dialled)
  qed
  have check: "triple closed (check_loaded W pl nettype w) (\<lambda>x s. if x = None then closed s else closed s) closed" for w
    using triple_closed [OF closed_load(2)] by simp
  show "triple closed (case r of Inl j \<Rightarrow> retM j
      | Inr w \<Rightarrow> or_return (check_loaded W pl nettype w) (or_return (dial_wallet W k pl w)
          (or_return (await_node W pl w) (publish_wallet W pl path nettype w)))) (\<lambda>_. secure) secure"
    by (cases r) (auto intro: triple_ret closed_secure or_return_dial [where P = closed, OF check or_return_dial [OF closed_dial await]])
qed

lemma secure_open: "keeps secure (doOpenLike W k p)"
  unfolding doOpenLike_def Let_def triple_keeps [symmetric]
proof (rule triple_bind [OF triple_yields [OF sc.planning plan_open_ok]])
  fix r :: "json + open_plan"
  have already: "triple secure (with_lock HandleMu Exclusive (getM (\<lambda>s. m_wallet s \<noteq> 0))) (\<lambda>b s. if b then secure s else closed s) secure"
    by (rule triple_with_lock [where P' = secure, OF _ triple_get]) (auto simp: sc.event closed_def)
  show "triple (\<lambda>s. planned r \<and> secure s) (case r of Inl j \<Rightarrow> retM j
      | Inr pl \<Rightarrow> bindM (with_lock HandleMu Exclusive (getM (\<lambda>s. m_wallet s \<noteq> 0))) (\<lambda>already.
             if already then retM (err ''a wallet is already open; close it first'')
             else thenM (setState W Opening [])
               (bindM (getM (\<lambda>s. walletPath s (op_name pl))) (\<lambda>path.
                thenM (callU W (WM (WM_setDaemonAddress (c_str (hostPort (op_dialUrl pl))))))
                (bindM (load_wallet W k p pl path (nettypeOf (op_network pl))) (\<lambda>r. case r of
                    Inl j \<Rightarrow> retM j
                  | Inr w \<Rightarrow> or_return (check_loaded W pl (nettypeOf (op_network pl)) w)
                      (or_return (dial_wallet W k pl w) (or_return (await_node W pl w)
                        (publish_wallet W pl path (nettypeOf (op_network pl)) w)))))))))
      (\<lambda>_. secure) secure"
  proof (cases r)
    case (Inr pl)
    show ?thesis
    proof (rule triple_facts [where b = "plan_ok pl"])
      assume pl: "plan_ok pl"
      show ?thesis
        unfolding Inr sum.case
        by (rule triple_bind [OF triple_conseq [OF already]], simp, assumption, assumption, rule triple_if,
            rule triple_ret, simp, rule triple_conseq [of closed], rule triple_then [OF keeps_closed [OF cl.helpers(1)]],
            rule triple_bind [where R = "\<lambda>_. closed", OF triple_get], assumption,
            rule triple_then [OF keeps_closed [OF closed_calls(2)]], rule open_loaded [OF pl]) auto
    qed (simp add: Inr)
  qed (simp, rule triple_ret, simp)
qed

lemma secure_run: "keeps secure (run_job W k params)"
  unfolding run_job_def dispatch_def
  by (intro keeps sc.helpers sc.jobs secure_open secure_close secure_create)

lemma secure_shutdown: "keeps secure (shutdown_close W)"
  unfolding shutdown_close_def by (intro keeps sc.primitives keeps_mod) (simp_all add: secure_def)

end
