(* ===== verification/Sends_Spec.thy ===== *)
theory Sends_Spec
  imports Protocol Privacy
begin

text \<open>
  What the money operations may do: the gate while a Tor route is not on Tor, what is checked before
  a transaction is built, what is read before it is sent, and the refresh paused and resumed around
  both.
\<close>

section \<open>The gate\<close>

definition waits :: "rt \<Rightarrow> bool" where
  "waits s \<longleftrightarrow> m_route s = CatchUp \<or> m_route s = WaitingForTor"

text \<open>C33. Sends wait for Tor: with a wallet open on a route that is not on Tor yet, building and
  committing a transaction answer "waiting_for_tor" at once; the engine is not called, and nothing but the two locks
  is touched.\<close>

theorem sends_wait_for_tor:
  assumes "m_wallet s \<noteq> 0" "m_route s = CatchUp \<or> m_route s = WaitingForTor"
  shows "doCreateTransaction W p s = (Inr (err kWaitingForTor), s\<lparr>hist := [Unlock HandleMu, Unlock StateMu,
      Lock StateMu Exclusive, Lock HandleMu Exclusive] @ hist s\<rparr>)
    \<and> doCommit W p s = (Inr (err kWaitingForTor), s\<lparr>hist := [Unlock HandleMu, Unlock StateMu,
      Lock StateMu Exclusive, Lock HandleMu Exclusive] @ hist s\<rparr>)"
  using assms
  by (auto simp: doCreateTransaction_def doCommit_def sendsWaitForTor_def with_lock_def thenM_def bindM_def
      getM_def retM_def logM_def modM_def finallyM_def)

lemma sends_wait_for_tor_witness:
  "fst (doCommit quiet_world JNull (init_rt\<lparr>m_wallet := 1, m_route := CatchUp\<rparr>)) = Inr (err kWaitingForTor)"
  using sends_wait_for_tor [of "init_rt\<lparr>m_wallet := 1, m_route := CatchUp\<rparr>" quiet_world JNull] by simp

section \<open>What stays during a send\<close>

definition stays :: "rt \<Rightarrow> (trace \<Rightarrow> event \<Rightarrow> bool) \<Rightarrow> rt \<Rightarrow> bool" where
  "stays s0 E s \<longleftrightarrow> m_wallet s = m_wallet s0 \<and> m_route s = m_route s0 \<and> m_network s = m_network s0
     \<and> m_walletName s = m_walletName s0 \<and> m_walletsDir s = m_walletsDir s0 \<and> grows E (hist s0) (hist s)"

named_theorems stay "programs that add only allowed events"

lemma stays_refl: "stays s E s"
  by (simp add: stays_def grows.start)

lemma stays_event: "stays s0 E s \<Longrightarrow> E (hist s) ev \<Longrightarrow> stays s0 E (s\<lparr>hist := ev # hist s\<rparr>)"
  by (simp add: stays_def grows.event)

lemma stay_call [stay]:
  assumes "\<And>s. stays s0 E s \<Longrightarrow> E (hist s) ev"
  shows "keeps (stays s0 E) (call W ans ev)" "keeps (stays s0 E) (callU W ev)" "keeps (stays s0 E) (logM ev)"
  by (intro keeps_call keeps_callU keeps_log stays_event; use assms in simp)+

lemma stay_mod [stay]:
  "(\<And>s. m_wallet (f s) = m_wallet s \<and> m_route (f s) = m_route s \<and> m_network (f s) = m_network s
     \<and> m_walletName (f s) = m_walletName s \<and> m_walletsDir (f s) = m_walletsDir s \<and> hist (f s) = hist s)
   \<Longrightarrow> keeps (stays s0 E) (modM f)"
  by (rule keeps_mod) (simp add: stays_def)

text \<open>Locks, frees and the like are never restricted.\<close>

fun ordinary :: "event \<Rightarrow> bool" where
  "ordinary (Wallet w (W_createTransaction a b c d e f g h)) = False"
| "ordinary (Wallet w (W_setPassword p)) = False"
| "ordinary (PendingTx pt (PT_commit a b)) = False"
| "ordinary (WalletRead w (W_seed o')) = False"
| "ordinary (WalletRead w W_secretViewKey) = False"
| "ordinary _ = True"

definition lenient :: "(trace \<Rightarrow> event \<Rightarrow> bool) \<Rightarrow> bool" where
  "lenient E \<longleftrightarrow> (\<forall>tr ev. ordinary ev \<longrightarrow> E tr ev)"

lemma stay_ordinary [stay]:
  assumes "lenient E" "ordinary ev"
  shows "keeps (stays s0 E) (call W ans ev)" "keeps (stays s0 E) (callU W ev)" "keeps (stays s0 E) (logM ev)"
  using assms by (intro stay_call; simp add: lenient_def)+

lemma stay_lock [stay]: "lenient E \<Longrightarrow> keeps (stays s0 E) body \<Longrightarrow> keeps (stays s0 E) (with_lock mu md body)"
  unfolding with_lock_def by (intro keeps stay_ordinary) simp_all

lemma stay_take [stay]: "lenient E \<Longrightarrow> keeps (stays s0 E) (takeM W c)" "lenient E \<Longrightarrow> keeps (stays s0 E) (takeJoined W c)"
  unfolding takeM_def takeJoined_def by (intro keeps stay_ordinary; simp)+

lemma stay_pause [stay]: "lenient E \<Longrightarrow> keeps (stays s0 E) body \<Longrightarrow> keeps (stays s0 E) (with_pause W w body)"
  unfolding with_pause_def by (intro keeps stay_ordinary) simp_all

lemma stay_verify: "lenient E \<Longrightarrow> keeps (stays s0 E) (verifyPassword W pw)"
  unfolding verifyPassword_def by (intro keeps stay_lock stay_ordinary) simp_all

text \<open>A value read under the state lock is the one of the start.\<close>

lemma stay_bind_state:
  assumes "lenient E" "\<And>s. f (s\<lparr>hist := Lock StateMu Exclusive # hist s\<rparr>) = f s"
    "\<And>s. stays s0 E s \<Longrightarrow> f s = f s0" "keeps (stays s0 E) (k (f s0))"
  shows "keeps (stays s0 E) (bindM (with_state (getM f)) k)"
proof (rule keepsI)
  fix s assume s: "stays s0 E s"
  then have "stays s0 E (s\<lparr>hist := Unlock StateMu # Lock StateMu Exclusive # hist s\<rparr>)"
    using assms(1) stays_event [OF stays_event [OF s]] by (simp add: lenient_def)
  with s show "wp (bindM (with_state (getM f)) k) (\<lambda>r t. r = Inl Terminated \<or> stays s0 E t) s"
    using keeps_wp [OF assms(4)] assms(2,3) by (simp add: wp)
qed

lemma stay_bind_wallet:
  "keeps (stays s0 E) (k (m_wallet s0)) \<Longrightarrow> keeps (stays s0 E) (bindM (getM m_wallet) k)"
  by (rule keeps_bind_get) (auto simp: stays_def)

lemma stays_run: "keeps (stays s E) m \<Longrightarrow> m s = (r, t) \<Longrightarrow> r \<noteq> Inl Terminated \<Longrightarrow> grows E (hist s) (hist t)"
  using keepsD [of "stays s E" m s r t] by (simp add: stays_refl stays_def)

section \<open>Building\<close>

text \<open>The rule of a build: the transaction is for the open wallet, past the gate, of the amount and to the
  address the request names, both checked.\<close>

fun build_rule :: "world \<Rightarrow> json \<Rightarrow> rt \<Rightarrow> trace \<Rightarrow> event \<Rightarrow> bool" where
  "build_rule W p s tr (Wallet w (W_createTransaction dst pid amount mixin priority account subaddr sep)) \<longleftrightarrow>
     w = m_wallet s \<and> w \<noteq> 0 \<and> (m_route s = Direct \<or> m_route s = Tor) \<and> amount \<noteq> 0 \<and> mixin = 0 \<and>
     value_str (w_what W) p ''address'' [] = Inr dst \<and> valid dst (m_network s) \<and>
     (\<exists>text. value_str (w_what W) p ''amount'' [] = Inr text \<and> parseAtomic text = Some amount)"
| "build_rule W p s tr (PendingTx pt (PT_commit a b)) = False"
| "build_rule W p s tr (Wallet w (W_setPassword pw)) = False"
| "build_rule W p s tr _ = True"

lemma build_lenient: "lenient (build_rule W p s)"
  unfolding lenient_def
proof (intro allI impI)
  fix tr ev show "ordinary ev \<Longrightarrow> build_rule W p s tr ev"
    by (cases "(W, p, s, tr, ev)" rule: build_rule.cases) auto
qed

text \<open>A checked address reaches the engine whole: it has no NUL.\<close>

lemma valid_c_str: "valid a network \<Longrightarrow> c_str a = a"
  by (rule c_str_id, rule valid_no_nul)

lemma build_made:
  assumes "m_wallet s \<noteq> 0" "m_route s = Direct \<or> m_route s = Tor" "amount \<noteq> 0"
    "value_str (w_what W) p ''amount'' [] = Inr text"
    "parseAtomic text = Some amount" "value_str (w_what W) p ''address'' [] = Inr dst" "valid dst (m_network s)"
  shows "keeps (stays s (build_rule W p s)) (buildTransaction W (m_wallet s) dst pid amount priority account)"
  unfolding buildTransaction_def
  by (intro keeps stay_take [OF build_lenient] stay_call(1) stay_mod)
    (use assms in \<open>simp_all add: keep_tx_def valid_c_str [OF assms(7)]\<close>)

lemma build_stays: "keeps (stays s (build_rule W p s)) (doCreateTransaction W p)"
  unfolding doCreateTransaction_def sendsWaitForTor_def
proof (rule stay_lock [OF build_lenient], rule stay_bind_wallet, rule keeps_if, rule keeps_ret,
    rule stay_bind_state [OF build_lenient], simp, simp add: stays_def, rule keeps_if, rule keeps_ret,
    rule stay_pause [OF build_lenient], rule keeps_bind, rule stay_ordinary [OF build_lenient], simp,
    rule keeps_if, rule keeps_ret, rule keeps_bind_lift, rule keeps_case_option, rule keeps_ret,
    rule keeps_if, rule keeps_ret, rule keeps_bind_lift, rule stay_bind_state [OF build_lenient], simp,
    simp add: stays_def, rule keeps_if, rule keeps_ret)
  fix am amount dst
  assume h: "m_wallet s \<noteq> 0" "\<not> (m_route s = CatchUp \<or> m_route s = WaitingForTor)" "value_str (w_what W) p ''amount'' [] = Inr am"
    "parseAtomic am = Some amount" "amount \<noteq> 0" "value_str (w_what W) p ''address'' [] = Inr dst" "\<not> \<not> valid dst (m_network s)"
  then have "m_route s = Direct \<or> m_route s = Tor" by (cases "m_route s") auto
  note made = build_made [OF h(1) this h(5,3,4,6)]
  show "keeps (stays s (build_rule W p s))
      (bindM (liftM (value_num (w_what W) p ''priority'' 0)) (\<lambda>priority.
         bindM (liftM (value_num (w_what W) p ''accountIndex'' 0)) (\<lambda>account.
         bindM (liftM (value_str (w_what W) p ''paymentId'' [])) (\<lambda>paymentId.
           buildTransaction W (m_wallet s) dst paymentId amount (sint (word_of_int priority :: u32)) (word_of_int account)))))"
    by (intro keeps_bind keeps_lift) (rule made, use h(7) in simp)
qed

text \<open>C3. Every transaction the engine is asked to build is the one requested: for the open wallet, on a route
  that may send, to the address of the request, valid on the wallet's network, for the nonzero amount its text denotes.\<close>

theorem create_checks_request:
  assumes "doCreateTransaction W p s = (r, t)" "r \<noteq> Inl Terminated"
    "hist t = later @ Wallet w (W_createTransaction dst pid amount mixin priority account sub sep) # earlier"
    "length (hist s) \<le> length earlier"
  shows "w = m_wallet s \<and> w \<noteq> 0 \<and> (m_route s = Direct \<or> m_route s = Tor) \<and>
    value_str (w_what W) p ''address'' [] = Inr dst \<and> valid dst (m_network s) \<and> amount \<noteq> 0 \<and>
    (\<exists>text. value_str (w_what W) p ''amount'' [] = Inr text \<and> parseAtomic text = Some amount)"
proof -
  from stays_run [OF build_stays assms(1,2)]
  have "grows (build_rule W p s) (hist s) (later @ Wallet w (W_createTransaction dst pid amount mixin priority account sub sep) # earlier)"
    by (simp add: assms(3))
  from grows_allowed [OF this assms(4)] show ?thesis by simp
qed

text \<open>A sample request and an open wallet.\<close>

definition sample_send :: "string \<Rightarrow> json" where
  "sample_send a = JObj [(''amount'', JStr ''5''), (''address'', JStr a)]"

definition open_rt :: rt where
  "open_rt = init_rt\<lparr>m_wallet := 7, m_network := ''mainnet'', m_walletName := ''w''\<rparr>"

lemma sample_builds:
  assumes "valid a ''mainnet''"
  shows "\<exists>t. doCreateTransaction spending_world (sample_send a) open_rt =
      (Inr (ok_result (JObj [(''txHandle'', JStr ''tx1''), (''amount'', JStr ''0''), (''fee'', JStr ''0''), (''dust'', JStr ''0''),
        (''txCount'', JInt 0), (''txids'', JStr []), (''destination'', JStr a)])), t)
    \<and> Wallet 7 (W_createTransaction a [] 5 0 0 0 [] '','') \<in> set (hist t) \<and> m_pendingTx t = [''tx1'' \<mapsto> 1]"
proof -
  have n: "to_string 0 = ''0''" "to_string (Suc 0) = ''1''" "to_string 5 = ''5''" "c_str '','' = '',''" "c_str [] = []"
    by code_simp+
  have five: "parseAtomic ''5'' = Some 5" using parseAtomic_to_string [of 5] by (simp add: n)
  have p: "value_str w (sample_send a) ''amount'' [] = Inr ''5''" "value_str w (sample_send a) ''address'' [] = Inr a"
    "value_num w (sample_send a) ''priority'' 0 = Inr 0" "value_num w (sample_send a) ''accountIndex'' 0 = Inr 0"
    "value_str w (sample_send a) ''paymentId'' [] = Inr []" for w
    by (simp_all add: sample_send_def value_simps)
  have o: "m_wallet open_rt = 7" "m_network open_rt = ''mainnet''" "m_route open_rt = Direct" "m_nextTx open_rt = 1"
    "m_pendingTx open_rt = Map.empty" by (simp_all add: open_rt_def init_rt_def)
  show ?thesis
    using assms by (simp add: doCreateTransaction_def buildTransaction_def runs sendsWaitForTor_def o p n five spending_world_simps
      tx_handle_def keep_tx_def valid_c_str [OF assms])
qed

lemma create_checks_request_witness:
  "\<exists>a t. valid a ''mainnet'' \<and> snd (doCreateTransaction spending_world (sample_send a) open_rt) = t \<and>
     Wallet 7 (W_createTransaction a [] 5 0 0 0 [] '','') \<in> set (hist t)"
proof -
  define a where "a = make_address Main Standard (replicate 64 1)"
  have v: "valid a ''mainnet''" unfolding a_def by (rule valid_canonical) (simp_all add: net_class_of_def)
  obtain t r where t: "doCreateTransaction spending_world (sample_send a) open_rt = (r, t)" "r \<noteq> Inl Terminated"
    "Wallet 7 (W_createTransaction a [] 5 0 0 0 [] '','') \<in> set (hist t)"
    using sample_builds [OF v] by blast
  obtain later earlier where l: "hist t = later @ Wallet 7 (W_createTransaction a [] 5 0 0 0 [] '','') # earlier"
    using split_list [OF t(3)] by blast
  have "valid a (m_network open_rt)"
    using create_checks_request [OF t(1,2) l] by (simp add: open_rt_def init_rt_def)
  then show ?thesis using t by (intro exI [of _ a] exI [of _ t]) (simp add: open_rt_def init_rt_def)
qed

section \<open>What becomes of the transactions\<close>

definition succeeded :: "exn + json \<Rightarrow> bool" where
  "succeeded r \<longleftrightarrow> (\<exists>x. r = Inr (ok_result x))"

lemma succeeded_simps [simp]: "\<not> succeeded (Inl x)" "\<not> succeeded (Inr (err m))" "succeeded (Inr (ok_result j))"
  by (auto simp: succeeded_def err_def ok_result_def)

text \<open>The calls on pending transactions, newest first.\<close>

fun tx_call :: "event \<Rightarrow> (handle \<times> pt_call) list" where
  "tx_call (PendingTx pt c) = [(pt, c)]"
| "tx_call _ = []"

definition tx_calls :: "trace \<Rightarrow> (handle \<times> pt_call) list" where
  "tx_calls tr = concat (map tx_call tr)"

lemma tx_calls_Cons [simp]: "tx_calls (ev # tr) = tx_call ev @ tx_calls tr"
  by (simp add: tx_calls_def)

text \<open>The calls made, the table and the counter of a state, and programs judged by what they do to these.\<close>

type_synonym tx_state = "(handle \<times> pt_call) list \<times> (string \<rightharpoonup> handle) \<times> u64"

definition tx_view :: "rt \<Rightarrow> tx_state" where
  "tx_view s = (tx_calls (hist s), m_pendingTx s, m_nextTx s)"

definition tx_triple :: "tx_state \<Rightarrow> 'a run \<Rightarrow> ('a \<Rightarrow> tx_state \<Rightarrow> bool) \<Rightarrow> (tx_state \<Rightarrow> bool) \<Rightarrow> bool" where
  "tx_triple x m Q E = triple (\<lambda>t. tx_view t = x) m (\<lambda>r t. Q r (tx_view t)) (\<lambda>t. E (tx_view t))"

lemma tx_bind: "tx_triple x m R E \<Longrightarrow> (\<And>r y. R r y \<Longrightarrow> tx_triple y (k r) Q E) \<Longrightarrow> tx_triple x (bindM m k) Q E"
  unfolding tx_triple_def by (rule triple_bind [where R = "\<lambda>r t. R r (tx_view t)"]) (auto simp: triple_def)

lemma tx_then: "tx_triple x m (\<lambda>_. R) E \<Longrightarrow> (\<And>y. R y \<Longrightarrow> tx_triple y k Q E) \<Longrightarrow> tx_triple x (thenM m k) Q E"
  unfolding thenM_def by (rule tx_bind)

lemma tx_ret: "Q r x \<Longrightarrow> tx_triple x (retM r) Q E"
  by (simp add: tx_triple_def triple_def wp)

lemma tx_lift: "(\<And>v. r = Inr v \<Longrightarrow> Q v x) \<Longrightarrow> E x \<Longrightarrow> tx_triple x (liftM r) Q E"
  unfolding tx_triple_def by (rule triple_lift) auto

lemma tx_mod: "(\<And>s. tx_view s = x \<Longrightarrow> Q () (tx_view (f s))) \<Longrightarrow> tx_triple x (modM f) Q E"
  by (simp add: tx_triple_def triple_mod)

text \<open>One step of the calls, and the string it returns.\<close>

definition tx_after :: "event \<Rightarrow> tx_state \<Rightarrow> tx_state" where
  "tx_after ev x = (tx_call ev @ fst x, snd x)"

lemma tx_view_event [simp]: "tx_view (s\<lparr>hist := ev # hist s\<rparr>) = tx_after ev (tx_view s)"
  by (simp add: tx_view_def tx_after_def)

lemma tx_event:
  "(\<And>r. Q r (tx_after ev x)) \<Longrightarrow> E (tx_after ev x) \<Longrightarrow> tx_triple x (call W ans ev) Q E"
  "(\<And>r. Q' r (tx_after ev x)) \<Longrightarrow> E (tx_after ev x) \<Longrightarrow> tx_triple x (callU W ev) Q' E"
  unfolding tx_triple_def by (rule triple_call triple_callU; simp)+

lemma tx_taken:
  "E x \<Longrightarrow> tx_triple x (takeM W p) (\<lambda>_ y. y = x) E" "E x \<Longrightarrow> tx_triple x (takeJoined W p) (\<lambda>_ y. y = x) E"
  unfolding tx_triple_def triple_def
  by (simp_all add: takeM_def takeJoined_def wp tx_after_def split: option.split)

lemma tx_string:
  "E (tx_after ev x) \<Longrightarrow> tx_triple x (take_call W ev) (\<lambda>_ y. y = tx_after ev x) E"
  "E (tx_after ev x) \<Longrightarrow> tx_triple x (joined_call W ev) (\<lambda>_ y. y = tx_after ev x) E"
  by (rule tx_bind [where R = "\<lambda>_ y. y = tx_after ev x", OF tx_event(1)]; simp add: tx_taken)+

lemma tx_locked:
  "tx_triple x body Q E \<Longrightarrow> tx_triple x (with_lock mu md body) Q E"
  unfolding tx_triple_def by (rule triple_with_lock [where P' = "\<lambda>t. tx_view t = x"]) (simp_all add: tx_after_def)

lemma tx_paused:
  assumes "tx_triple x body Q E" "E x"
  shows "tx_triple x (with_pause W w body) Q E"
  unfolding with_pause_def
proof (rule tx_then [where R = "(=) x"])
  show "tx_triple x (whenM (w \<noteq> 0) (callU W (Wallet w W_pauseRefresh))) (\<lambda>_. (=) x) E"
    using assms(2) by (simp add: tx_triple_def triple_def wp tx_after_def split: option.split)
  fix y assume "x = y"
  with assms(1) show "tx_triple y (finallyM body (whenM (w \<noteq> 0) (callU W (Wallet w W_startRefresh)))) Q E"
    unfolding tx_triple_def
    by (intro triple_finally) (auto simp: wp tx_after_def elim!: triple_conseq split: option.splits)
qed

lemma commit_tail:
  assumes "fst x' = [(pt, PT_commit [] False), (pt, PT_txid '','')] @ fst x" "snd x' = snd x"
    and quiet: "E (tx_after (PendingTx pt (PT_txid '','')) x)" "E x'" "E (tx_after (PendingTx pt PT_errorString) x')"
      "\<And>e. Q (err e) (tx_after (PendingTx pt PT_errorString) x')"
    and gone: "E (fst x', (fst (snd x))(h := None), snd (snd x))" "\<And>r. Q (ok_result r) (fst x', (fst (snd x))(h := None), snd (snd x))"
  shows "tx_triple x (commitTransaction W w h pt) Q E"
  unfolding commitTransaction_def Let_def
proof (rule tx_bind [where R = "\<lambda>_ y. y = tx_after (PendingTx pt (PT_txid '','')) x"])
  show "tx_triple x (joined_call W (PendingTx pt (PT_txid '',''))) (\<lambda>_ y. y = tx_after (PendingTx pt (PT_txid '','')) x) E"
    by (rule tx_string(2), rule quiet)
  let ?y = "tx_after (PendingTx pt (PT_txid '','')) x"
  have x': "tx_after (PendingTx pt (PT_commit [] False)) ?y = x'" using assms by (simp add: tx_after_def prod_eq_iff)
  fix joined y assume y: "y = ?y"
  have refuse: "tx_triple x' (bindM (take_call W (PendingTx pt PT_errorString)) (\<lambda>e. retM (err e))) Q E"
    by (rule tx_bind [OF tx_string(1)]) (auto intro: quiet tx_ret)
  let ?g = "(fst x', (fst (snd x))(h := None), snd (snd x))"
  have drop: "tx_triple x' (modM (drop_tx h)) (\<lambda>_ y. y = ?g) E"
    by (rule tx_mod) (auto simp: tx_view_def drop_tx_def assms(2) prod_eq_iff)
  have store: "tx_triple ?g (callU W (Wallet w (W_store []))) (\<lambda>_ y. y = ?g) E"
    by (rule tx_event(2)) (simp_all add: tx_after_def gone)
  have accept: "tx_triple x' (thenM (modM (drop_tx h)) (thenM (callU W (Wallet w (W_store []))) (retM (ok_result r)))) Q E" for r
    by (rule tx_then [OF drop], simp only:, rule tx_then [OF store], simp add: tx_ret gone)
  show "tx_triple y (bindM (call W (w_bool W) (PendingTx pt (PT_commit [] False))) (\<lambda>ok.
      if \<not> ok then bindM (take_call W (PendingTx pt PT_errorString)) (\<lambda>e. retM (err e))
      else thenM (modM (drop_tx h)) (thenM (callU W (Wallet w (W_store [])))
        (retM (ok_result (JObj [(''txids'', JStr (if looksLikeTxid joined then joined else []))])))))) Q E"
    unfolding y by (rule tx_bind [where R = "\<lambda>_ y. y = x'", OF tx_event(1)]) (use quiet refuse accept in \<open>simp_all add: x'\<close>)
qed

text \<open>A value read before anything the operation changes is the one of the start.\<close>

lemma commit_triple:
  fixes s :: rt
  defines "x \<equiv> tx_view s"
  assumes quiet: "E x" "\<And>e. Q (err e) x"
    and tail: "\<And>h pt. m_wallet s \<noteq> 0 \<Longrightarrow> \<not> waits s \<Longrightarrow> value_str (w_what W) p ''txHandle'' [] = Inr h \<Longrightarrow> fst (snd x) h = Some pt \<Longrightarrow>
      tx_triple x (commitTransaction W (m_wallet s) h pt) Q E"
  shows "wp (doCommit W p) (\<lambda>r t. case r of Inl e \<Rightarrow> e = Terminated \<or> E (tx_view t) | Inr j \<Rightarrow> Q j (tx_view t)) s"
proof -
  let ?h = "value_str (w_what W) p ''txHandle'' []"
  let ?body = "bindM (liftM ?h) (\<lambda>handle. bindM (getM (\<lambda>s. m_pendingTx s handle)) (\<lambda>it.
      case it of None \<Rightarrow> retM (err ''unknown txHandle'') | Some pt \<Rightarrow> commitTransaction W (m_wallet s) handle pt))"
  have body: "tx_triple x ?body Q E" if "m_wallet s \<noteq> 0" "\<not> waits s"
  proof (rule tx_bind [where R = "\<lambda>h y. ?h = Inr h \<and> y = x", OF tx_lift])
    fix h y assume h: "?h = Inr h \<and> y = x"
    show "tx_triple y (bindM (getM (\<lambda>s. m_pendingTx s h)) (\<lambda>it.
      case it of None \<Rightarrow> retM (err ''unknown txHandle'') | Some pt \<Rightarrow> commitTransaction W (m_wallet s) h pt)) Q E"
    proof (rule tx_bind [where R = "\<lambda>it y. it = fst (snd x) h \<and> y = x"])
      show "tx_triple y (getM (\<lambda>s. m_pendingTx s h)) (\<lambda>it y. it = fst (snd x) h \<and> y = x) E"
        using h by (auto simp: tx_triple_def triple_def wp tx_view_def)
      fix it y assume "it = fst (snd x) h \<and> y = x"
      then show "tx_triple y (case it of None \<Rightarrow> retM (err ''unknown txHandle'')
          | Some pt \<Rightarrow> commitTransaction W (m_wallet s) h pt) Q E"
        using tail [OF that] h by (cases "fst (snd x) h") (auto intro: tx_ret quiet)
    qed
  qed (use quiet in auto)
  let ?G = "\<lambda>r t. case r of Inl e \<Rightarrow> e = Terminated \<or> E (tx_view t) | Inr j \<Rightarrow> Q j (tx_view t)"
  have paused: "wp (with_pause W (m_wallet s) ?body) ?G t" if "m_wallet s \<noteq> 0" "\<not> waits s" "tx_view t = x" for t
    using triple_wp [OF tx_paused [OF body [OF that(1,2)] quiet(1), unfolded tx_triple_def], of t] that(3) by simp
  let ?s = "s\<lparr>hist := Unlock StateMu # Lock StateMu Exclusive # Lock HandleMu Exclusive # hist s\<rparr>"
  have "wp (with_pause W (m_wallet s) ?body) (\<lambda>r t. r \<noteq> Inl Terminated \<longrightarrow> ?G r (t\<lparr>hist := Unlock HandleMu # hist t\<rparr>)) ?s"
    if "m_wallet s \<noteq> 0" "\<not> waits s"
    using paused [OF that, of ?s] by (rule wp_mono) (auto simp: x_def tx_view_def split: sum.splits)
  then show ?thesis
    using quiet by (simp add: doCommit_def sendsWaitForTor_def wp waits_def x_def tx_view_def)
qed

lemma commit_ends:
  assumes "doCommit W p s = (r, t)" "r \<noteq> Inl Terminated"
  shows "m_nextTx t = m_nextTx s \<and>
    ((tx_calls (hist t) = tx_calls (hist s) \<and> m_pendingTx t = m_pendingTx s \<and> \<not> succeeded r) \<or>
    (\<exists>h pt. value_str (w_what W) p ''txHandle'' [] = Inr h \<and> m_pendingTx s h = Some pt \<and> m_wallet s \<noteq> 0 \<and>
      (m_route s = Direct \<or> m_route s = Tor) \<and>
      (let asked = (pt, PT_txid '','') # tx_calls (hist s); sent = (pt, PT_commit [] False) # asked in
        m_pendingTx t = m_pendingTx s \<and> \<not> succeeded r \<and> tx_calls (hist t) \<in> {asked, sent, (pt, PT_errorString) # sent} \<or>
        m_pendingTx t = (m_pendingTx s)(h := None) \<and> tx_calls (hist t) = sent)))"
proof -
  let ?G = "\<lambda>r x. snd (snd x) = m_nextTx s \<and> ((fst x = tx_calls (hist s) \<and> fst (snd x) = m_pendingTx s \<and> \<not> succeeded r) \<or>
    (\<exists>h pt. value_str (w_what W) p ''txHandle'' [] = Inr h \<and> m_pendingTx s h = Some pt \<and> m_wallet s \<noteq> 0 \<and>
      (m_route s = Direct \<or> m_route s = Tor) \<and>
      (let asked = (pt, PT_txid '','') # tx_calls (hist s); sent = (pt, PT_commit [] False) # asked in
        fst (snd x) = m_pendingTx s \<and> \<not> succeeded r \<and> fst x \<in> {asked, sent, (pt, PT_errorString) # sent} \<or>
        fst (snd x) = (m_pendingTx s)(h := None) \<and> fst x = sent)))"
  have route: "\<not> waits s \<Longrightarrow> m_route s = Direct \<or> m_route s = Tor"
    by (cases "m_route s") (auto simp: waits_def)
  have "wp (doCommit W p) (\<lambda>r t. case r of Inl e \<Rightarrow> e = Terminated \<or> ?G (Inl UnknownException) (tx_view t) | Inr j \<Rightarrow> ?G (Inr j) (tx_view t)) s"
  proof (rule commit_triple)
    fix h pt
    assume h: "m_wallet s \<noteq> 0" "\<not> waits s" "value_str (w_what W) p ''txHandle'' [] = Inr h" "fst (snd (tx_view s)) h = Some pt"
    have tab: "m_pendingTx s h = Some pt" using h(4) by (simp add: tx_view_def)
    have leaf: "?G r x" if "snd (snd x) = m_nextTx s" "fst (snd x) = m_pendingTx s \<and> \<not> succeeded r \<and> (fst x = (pt, PT_txid '','') # tx_calls (hist s)
        \<or> fst x = (pt, PT_commit [] False) # (pt, PT_txid '','') # tx_calls (hist s)
        \<or> fst x = (pt, PT_errorString) # (pt, PT_commit [] False) # (pt, PT_txid '','') # tx_calls (hist s))
        \<or> fst (snd x) = (m_pendingTx s)(h := None) \<and> fst x = (pt, PT_commit [] False) # (pt, PT_txid '','') # tx_calls (hist s)" for r x
      using that h(1,3) tab route [OF h(2)] by (auto simp: Let_def simp del: fun_upd_apply)
    show "tx_triple (tx_view s) (commitTransaction W (m_wallet s) h pt) (\<lambda>j. ?G (Inr j)) (?G (Inl UnknownException))"
      by (rule commit_tail [where x' = "((pt, PT_commit [] False) # (pt, PT_txid '','') # tx_calls (hist s), m_pendingTx s, m_nextTx s)"];
        (rule leaf)?; simp add: tx_after_def tx_view_def)
  qed (simp_all add: tx_view_def)
  from wpD [OF this assms(1)] have "?G r (tx_view t)"
    using assms(2) by (cases r) simp_all
  then show ?thesis by (simp add: tx_view_def)
qed



text \<open>Programs judged by what they do to the table and the counter alone.\<close>

type_synonym tx_table = "(string \<rightharpoonup> handle) \<times> u64"

definition tab_triple :: "tx_table \<Rightarrow> 'a run \<Rightarrow> ('a \<Rightarrow> tx_table \<Rightarrow> bool) \<Rightarrow> (tx_table \<Rightarrow> bool) \<Rightarrow> bool" where
  "tab_triple a m Q E \<longleftrightarrow> (\<forall>x. snd x = a \<longrightarrow> tx_triple x m (\<lambda>r y. Q r (snd y)) (\<lambda>y. E (snd y)))"

lemma tab_bind: "tab_triple a m (\<lambda>_ b. b = a) E \<Longrightarrow> (\<And>r. tab_triple a (k r) Q E) \<Longrightarrow> tab_triple a (bindM m k) Q E"
  unfolding tab_triple_def by (auto intro!: tx_bind [where R = "\<lambda>_ y. snd y = a"])

lemma tab_leaf: "Q r a \<Longrightarrow> tab_triple a (retM r) Q E" "E a \<Longrightarrow> (\<And>v. Q' v a) \<Longrightarrow> tab_triple a (liftM z) Q' E"
  unfolding tab_triple_def by (auto intro: tx_ret tx_lift)

lemma tab_if: "(b \<Longrightarrow> tab_triple a m Q E) \<Longrightarrow> (\<not> b \<Longrightarrow> tab_triple a n Q E) \<Longrightarrow> tab_triple a (if b then m else n) Q E"
  by simp

lemma tab_option: "tab_triple a m Q E \<Longrightarrow> (\<And>y. tab_triple a (k y) Q E) \<Longrightarrow> tab_triple a (case x of None \<Rightarrow> m | Some y \<Rightarrow> k y) Q E"
  by (cases x) simp_all

lemma tab_call: "E a \<Longrightarrow> (\<And>v. Q v a) \<Longrightarrow> tab_triple a (call W ans ev) Q E"
  unfolding tab_triple_def by (auto intro!: tx_event simp: tx_after_def)

lemma tab_taken: "E a \<Longrightarrow> tab_triple a (takeM W p) (\<lambda>_ b. b = a) E" "E a \<Longrightarrow> tab_triple a (takeJoined W p) (\<lambda>_ b. b = a) E"
  unfolding tab_triple_def tx_triple_def triple_def
  by (auto simp: takeM_def takeJoined_def wp tx_after_def split: option.split)

lemma tab_get: "(\<And>v. Q v a) \<Longrightarrow> tab_triple a (getM f) Q E"
  by (simp add: tab_triple_def tx_triple_def triple_def wp)

lemma tab_locked: "tab_triple a body Q E \<Longrightarrow> tab_triple a (with_lock mu md body) Q E"
  by (simp add: tab_triple_def tx_locked)

lemma tab_paused: "tab_triple a body Q E \<Longrightarrow> E a \<Longrightarrow> tab_triple a (with_pause W w body) Q E"
  by (simp add: tab_triple_def tx_paused)

lemmas tabs = tab_locked tab_paused tab_bind tab_if tab_option tab_leaf tab_call tab_taken tab_get

lemma build_table:
  fixes a :: tx_table
  defines "h \<equiv> ''tx'' @ to_string (unat (snd a))"
  assumes E: "E a" "\<And>pt. pt \<noteq> 0 \<Longrightarrow> E ((fst a)(h \<mapsto> pt), snd a + 1)" and Q: "\<And>e. Q (err e) a"
    "\<And>pt res. pt \<noteq> 0 \<Longrightarrow> jfind res ''txHandle'' = Some (JStr h) \<Longrightarrow> Q (ok_result res) ((fst a)(h \<mapsto> pt), snd a + 1)"
  shows "tab_triple a (buildTransaction W w dst pid amount priority account) Q E"
proof -
  have keep: "tab_triple a (bindM (getM tx_handle) (\<lambda>handle. thenM (modM (keep_tx pt)) (K handle))) Q E"
    if "tab_triple ((fst a)(h \<mapsto> pt), snd a + 1) (K h) Q E" for pt K
    using that unfolding tab_triple_def tx_triple_def triple_def
    by (auto simp: wp h_def tx_view_def keep_tx_def tx_handle_def)
  have describe: "tab_triple ((fst a)(h \<mapsto> pt), snd a + 1)
      (bindM (call W (w_u64 W) (PendingTx pt PT_amount)) (\<lambda>amt. bindM (call W (w_u64 W) (PendingTx pt PT_fee)) (\<lambda>fee.
       bindM (call W (w_u64 W) (PendingTx pt PT_dust)) (\<lambda>dust. bindM (call W (w_u64 W) (PendingTx pt PT_txCount)) (\<lambda>count.
       bindM (joined_call W (PendingTx pt (PT_txid '',''))) (\<lambda>txids.
         retM (ok_result (JObj [(''txHandle'', JStr h), (''amount'', JStr (to_string (unat amt))),
           (''fee'', JStr (to_string (unat fee))), (''dust'', JStr (to_string (unat dust))),
           (''txCount'', JInt (uint count)), (''txids'', JStr txids), (''destination'', JStr dst)])))))))) Q E"
    if "pt \<noteq> 0" for pt
    by (intro tabs E(2) [OF that] Q(2) [OF that]) simp_all
  show ?thesis
    unfolding buildTransaction_def
    by (rule tab_bind, rule tab_call, rule E, rule refl, rule tab_if, rule tab_leaf, rule Q, rule tab_bind, rule tab_call,
        rule E, rule refl, rule tab_if, (intro tabs E Q refl)[1], rule keep, rule describe, simp)
qed

lemma create_table:
  fixes s :: rt
  defines "a \<equiv> snd (tx_view s)"
  defines "h \<equiv> ''tx'' @ to_string (unat (snd a))"
  assumes E: "E a" "\<And>pt. pt \<noteq> 0 \<Longrightarrow> E ((fst a)(h \<mapsto> pt), snd a + 1)" and Q: "\<And>e. Q (err e) a"
    "\<And>pt res. pt \<noteq> 0 \<Longrightarrow> jfind res ''txHandle'' = Some (JStr h) \<Longrightarrow> Q (ok_result res) ((fst a)(h \<mapsto> pt), snd a + 1)"
  shows "tab_triple a (doCreateTransaction W p) Q E"
  unfolding doCreateTransaction_def sendsWaitForTor_def
  by (intro tabs build_table E Q refl) (use E(2) Q(2) in \<open>simp_all add: h_def\<close>)



end
