(* ===== verification/Secrets.thy ===== *)
theory Secrets
  imports Sends_Spec Reads
begin

text \<open>
  What the wallet's password guards, the seed, the view key and the password itself, and the refresh that
  is resumed whenever one of the guarded operations, a build or a send has paused it.
\<close>

section \<open>The password\<close>

text \<open>The engine's last call was the check of this password on the wallet's key file, and it agreed.\<close>

definition verified :: "world \<Rightarrow> rt \<Rightarrow> string \<Rightarrow> trace \<Rightarrow> bool" where
  "verified W s pw tr \<longleftrightarrow> (\<exists>before.
     let ask = WM (WM_verifyWalletPassword (c_str (walletPath s (m_walletName s) @ ''.keys'')) (c_str pw) False 1) in
     tr = ask # before \<and> w_bool W before ask)"

fun secret :: "event \<Rightarrow> handle option" where
  "secret (WalletRead w (W_seed offset)) = Some w"
| "secret (WalletRead w W_secretViewKey) = Some w"
| "secret (Wallet w (W_setPassword new)) = Some w"
| "secret _ = None"

definition secret_rule :: "world \<Rightarrow> string \<Rightarrow> rt \<Rightarrow> trace \<Rightarrow> event \<Rightarrow> bool" where
  "secret_rule W pw s tr ev \<longleftrightarrow> (\<forall>w. secret ev = Some w \<longrightarrow> w = m_wallet s \<and> w \<noteq> 0 \<and> verified W s pw tr)"

lemma secret_ordinary: "ordinary ev \<Longrightarrow> secret ev = None"
  by (cases ev rule: secret.cases) auto

lemma secret_lenient: "lenient (secret_rule W pw s)"
  by (simp add: lenient_def secret_rule_def secret_ordinary)

lemmas secret_stay = stay_lock [OF secret_lenient] stay_take [OF secret_lenient] stay_pause [OF secret_lenient]
  stay_ordinary [OF secret_lenient]

text \<open>After the check, one sensitive call.\<close>

lemma verify_triple:
  "triple (stays s (secret_rule W pw s)) (verifyPassword W pw)
     (\<lambda>match t. stays s (secret_rule W pw s) t \<and> (match \<longrightarrow> verified W s pw (hist t))) (stays s (secret_rule W pw s))"
proof (rule tripleI)
  let ?I = "stays s (secret_rule W pw s)"
  fix t assume t: "?I t"
  have ev: "?I u \<Longrightarrow> ordinary ev \<Longrightarrow> ?I (u\<lparr>hist := ev # hist u\<rparr>)" for u ev
    using secret_lenient stays_event by (simp add: lenient_def)
  let ?u = "t\<lparr>hist := Unlock StateMu # Lock StateMu Exclusive # hist t\<rparr>"
  have u: "?I ?u" using ev [OF ev [OF t, of "Lock StateMu Exclusive"], of "Unlock StateMu"] by simp
  have "walletPath t (m_walletName t) = walletPath s (m_walletName s)"
    using t by (simp add: walletPath_def stays_def)
  then show "wp (verifyPassword W pw) (\<lambda>r t. case r of Inl e \<Rightarrow> e = Terminated \<or> ?I t
      | Inr match \<Rightarrow> ?I t \<and> (match \<longrightarrow> verified W s pw (hist t))) t"
    using ev [OF u] by (auto simp: verifyPassword_def wp verified_def walletPath_def split: option.split)
qed

lemma guarded_call:
  assumes "secret ev = Some (m_wallet s)" "m_wallet s \<noteq> 0"
  shows "triple (\<lambda>t. stays s (secret_rule W pw s) t \<and> verified W s pw (hist t)) (call W ans ev)
    (\<lambda>_. stays s (secret_rule W pw s)) (stays s (secret_rule W pw s))"
  using assms by (auto intro!: triple_call stays_event simp: secret_rule_def)

lemma guarded:
  assumes "\<And>e. triple (\<lambda>t. stays s (secret_rule W pw s) t \<and> verified W s pw (hist t)) k
    (\<lambda>_. stays s (secret_rule W pw s)) (stays s (secret_rule W pw s))"
  shows "keeps (stays s (secret_rule W pw s)) (bindM (verifyPassword W pw) (\<lambda>match. if \<not> match then retM e else k))"
  unfolding triple_keeps [symmetric]
  by (rule triple_bind [OF verify_triple], rule triple_if, rule triple_ret, simp, rule triple_conseq [OF assms]) simp_all

lemma guarded_read:
  assumes "secret ev = Some (m_wallet s)" "m_wallet s \<noteq> 0" "\<And>x. keeps (stays s (secret_rule W pw s)) (k x)"
  shows "triple (\<lambda>t. stays s (secret_rule W pw s) t \<and> verified W s pw (hist t)) (bindM (take_call W ev) k)
    (\<lambda>_. stays s (secret_rule W pw s)) (stays s (secret_rule W pw s))"
proof (rule triple_bind [where R = "\<lambda>_. stays s (secret_rule W pw s)"], rule triple_bind [OF guarded_call [OF assms(1,2)]])
  show "triple (stays s (secret_rule W pw s)) (takeM W x) (\<lambda>_. stays s (secret_rule W pw s)) (stays s (secret_rule W pw s))" for x
    unfolding triple_keeps by (rule secret_stay)
  show "triple (stays s (secret_rule W pw s)) (k x) (\<lambda>_. stays s (secret_rule W pw s)) (stays s (secret_rule W pw s))" for x
    unfolding triple_keeps by (rule assms(3))
qed

lemma seed_stays: "keeps (stays s (secret_rule W pw s)) (revealSeed W pw)"
  unfolding revealSeed_def
  by (rule secret_stay, rule stay_bind_wallet, rule keeps_if, rule keeps_ret, rule guarded, rule guarded_read)
    (simp_all add: keeps)

lemma view_key_stays: "keeps (stays s (secret_rule W pw s)) (revealViewKey W pw)"
  unfolding revealViewKey_def
  by (rule secret_stay, rule stay_bind_wallet, rule keeps_if, rule keeps_ret, rule guarded, rule guarded_read)
    (simp_all, (intro keeps secret_stay; simp)+)

lemma password_stays:
  assumes "value_str (w_what W) p ''oldPassword'' [] = Inr pw"
  shows "keeps (stays s (secret_rule W pw s)) (doChangePassword W p)"
  unfolding doChangePassword_def
proof (rule secret_stay, rule stay_bind_wallet, rule keeps_if, rule keeps_ret, rule secret_stay, rule keeps_bind_lift)
  let ?I = "stays s (secret_rule W pw s)"
  fix old
  assume w: "m_wallet s \<noteq> 0" and "value_str (w_what W) p ''oldPassword'' [] = Inr old"
  with assms have old: "old = pw" by simp
  have rest: "keeps ?I (if \<not> ok then bindM (take_call W (WalletRead (m_wallet s) W_errorString)) (\<lambda>e. retM (err e))
      else thenM (callU W (Wallet (m_wallet s) (W_store []))) (retM (ok_result (JObj []))))" for ok
    by (intro keeps secret_stay) simp_all
  have "triple (\<lambda>t. ?I t \<and> verified W s pw (hist t)) (bindM (liftM (value_str (w_what W) p ''newPassword'' [])) (\<lambda>new.
      bindM (call W (w_bool W) (Wallet (m_wallet s) (W_setPassword (c_str new)))) (\<lambda>ok.
        if \<not> ok then bindM (take_call W (WalletRead (m_wallet s) W_errorString)) (\<lambda>e. retM (err e))
        else thenM (callU W (Wallet (m_wallet s) (W_store []))) (retM (ok_result (JObj [])))))) (\<lambda>_. ?I) ?I"
    by (rule triple_bind [where R = "\<lambda>_ t. ?I t \<and> verified W s pw (hist t)"], rule triple_lift, assumption, simp,
        rule triple_bind [OF guarded_call], simp, rule w, unfold triple_keeps, rule rest)
  then show "keeps ?I (bindM (verifyPassword W old) (\<lambda>match. if \<not> match then retM (err ''wrong password'')
      else bindM (liftM (value_str (w_what W) p ''newPassword'' [])) (\<lambda>new.
        bindM (call W (w_bool W) (Wallet (m_wallet s) (W_setPassword (c_str new)))) (\<lambda>ok.
          if \<not> ok then bindM (take_call W (WalletRead (m_wallet s) W_errorString)) (\<lambda>e. retM (err e))
          else thenM (callU W (Wallet (m_wallet s) (W_store []))) (retM (ok_result (JObj [])))))))"
    unfolding old by (rule guarded)
qed

text \<open>C10. The seed, the view key and a new password need the password: the engine is asked for a secret of the
  open wallet, or to change its password, only when its call just before was the check of the password given, and that
  check agreed.\<close>

theorem secrets_need_password:
  assumes "m = revealSeed W pw \<or> m = revealViewKey W pw \<or>
      m = doChangePassword W p \<and> value_str (w_what W) p ''oldPassword'' [] = Inr pw"
    and "m s = (r, t)" "r \<noteq> Inl Terminated"
    and "hist t = later @ ev # earlier" "length (hist s) \<le> length earlier" "secret ev = Some w"
  shows "w = m_wallet s \<and> w \<noteq> 0 \<and> verified W s pw earlier"
proof -
  have "keeps (stays s (secret_rule W pw s)) m"
    using assms(1) seed_stays view_key_stays password_stays by auto
  from stays_run [OF this assms(2,3)] have "grows (secret_rule W pw s) (hist s) (later @ ev # earlier)"
    by (simp add: assms(4))
  from grows_allowed [OF this assms(5)] assms(6) show ?thesis by (simp add: secret_rule_def)
qed

lemma secrets_need_password_witness:
  "\<exists>t later earlier. snd (revealSeed spending_world ''pw'' open_rt) = t \<and>
     hist t = later @ WalletRead 7 (W_seed []) # earlier \<and> verified spending_world open_rt ''pw'' earlier"
proof -
  have o: "m_wallet open_rt = 7" "m_network open_rt = ''mainnet''" "m_route open_rt = Direct" "hist open_rt = []"
    by (simp_all add: open_rt_def init_rt_def)
  have b: "w_bool spending_world tr (WM c) = True" for tr c by (simp add: spending_world_def)
  have "\<exists>x t. revealSeed spending_world ''pw'' open_rt = (Inr x, t) \<and> WalletRead 7 (W_seed []) \<in> set (hist t)"
    by (simp add: revealSeed_def verifyPassword_def runs o b spending_world_simps)
  then obtain x t where t: "revealSeed spending_world ''pw'' open_rt = (Inr x, t)" "WalletRead 7 (W_seed []) \<in> set (hist t)"
    by blast
  obtain later earlier where l: "hist t = later @ WalletRead 7 (W_seed []) # earlier"
    using split_list [OF t(2)] by blast
  show ?thesis
    using secrets_need_password [of "revealSeed spending_world ''pw''", OF _ t(1) _ l] l t(1) o
    by (intro exI [of _ t] exI [of _ later] exI [of _ earlier]) simp
qed

section \<open>The refresh is resumed\<close>

primrec paused :: "handle \<Rightarrow> trace \<Rightarrow> bool" where
  "paused w [] = False"
| "paused w (ev # tr) = (if ev = Wallet w W_pauseRefresh then True else if ev = Wallet w W_startRefresh then False else paused w tr)"

text \<open>Whatever the body does, also by throwing, the refresh runs after the pause.\<close>

lemma pause_resumes:
  assumes "\<And>tr. w_throw W tr (Wallet w W_pauseRefresh) = None" "w \<noteq> 0" "with_pause W w body s = (r, t)" "r \<noteq> Inl Terminated"
  shows "\<not> paused w (hist t)"
proof -
  have "wp (with_pause W w body) (\<lambda>r t. r = Inl Terminated \<or> \<not> paused w (hist t)) s"
    using assms(1,2) by (auto simp: with_pause_def wp split: option.splits intro!: wpI)
  from wpD [OF this assms(3)] assms(4) show ?thesis by simp
qed



end
