(* ===== verification/Pending.thy ===== *)
theory Pending
  imports Privacy
begin

text \<open>
  The transactions built and not yet sent belong to the open wallet: none is left once it is closed, so
  none can be sent from, or through, another.
\<close>

definition owned :: "rt \<Rightarrow> bool" where
  "owned s \<longleftrightarrow> (m_wallet s = 0 \<longrightarrow> m_pendingTx s = Map.empty)"

interpretation ow: rt_invariant owned
  by unfold_locales (auto simp: owned_def same_core_def drop_tx_def)

lemmas ow_calls = ow.base(1-3) ow.locked ow.tried ow.taken ow.sockets ow.paused

text \<open>An empty table stays empty in whatever only opens or closes a wallet.\<close>

definition empty_table :: "rt \<Rightarrow> bool" where
  "empty_table s \<longleftrightarrow> m_pendingTx s = Map.empty"

interpretation em: rt_invariant empty_table
  by unfold_locales (auto simp: empty_table_def same_core_def drop_tx_def)

lemma empty_owned: "empty_table s \<Longrightarrow> owned s"
  by (simp add: empty_table_def owned_def)

lemma empty_calls: "keeps empty_table (call W ans ev)" "keeps empty_table (callU W ev)" "keeps empty_table (logM ev)"
  by (intro keeps_call keeps_callU keeps_log; simp add: empty_table_def)+

lemma empty_mod: "(\<And>s. m_pendingTx (f s) = m_pendingTx s) \<Longrightarrow> keeps empty_table (modM f)"
  by (rule keeps_mod) (simp add: empty_table_def)

lemma owned_mod: "(\<And>s. m_wallet (f s) = m_wallet s \<and> m_pendingTx (f s) = m_pendingTx s) \<Longrightarrow> keeps owned (modM f)"
  by (rule keeps_mod) (simp add: owned_def)

lemma owned_calls: "keeps owned (call W ans ev)" "keeps owned (callU W ev)" "keeps owned (logM ev)"
  by (intro keeps_call keeps_callU keeps_log; simp add: owned_def)+

section \<open>Opening and closing\<close>

lemma empty_dial: "keeps empty_table (dial_wallet W k pl w)" "keeps empty_table (hand_over W pl addr nettype w)"
  unfolding dial_wallet_def hand_over_def by (intro keeps em.primitives empty_calls em.helpers empty_mod; simp)+

lemma empty_publish: "keeps empty_table (publish_wallet W pl path nettype w)"
  unfolding publish_wallet_def by (intro keeps em.primitives em.helpers empty_dial) simp_all

lemma empty_or_return: "keeps empty_table m \<Longrightarrow> keeps empty_table k \<Longrightarrow> keeps empty_table (or_return m k)"
  unfolding or_return_def by (intro keeps)

lemma owned_open: "keeps owned (doOpenLike W k p)"
  unfolding doOpenLike_def Let_def triple_keeps [symmetric]
proof (rule triple_bind [OF iffD2 [OF triple_keeps ow.planning]])
  fix r :: "json + open_plan"
  have already: "triple owned (with_lock HandleMu Exclusive (getM (\<lambda>s. m_wallet s \<noteq> 0))) (\<lambda>b s. if b then owned s else empty_table s) owned"
    by (rule triple_with_lock [where P' = owned, OF _ triple_get]) (auto simp: ow.event owned_def empty_table_def)
  have opened: "keeps empty_table (thenM (setState W Opening [])
      (bindM (getM (\<lambda>s. walletPath s (op_name pl))) (\<lambda>path.
        thenM (callU W (WM (WM_setDaemonAddress (c_str (hostPort (op_dialUrl pl))))))
        (bindM (load_wallet W k p pl path (nettypeOf (op_network pl))) (\<lambda>r. case r of
            Inl j \<Rightarrow> retM j
          | Inr w \<Rightarrow> or_return (check_loaded W pl (nettypeOf (op_network pl)) w)
              (or_return (dial_wallet W k pl w) (or_return (await_node W pl w)
                (publish_wallet W pl path (nettypeOf (op_network pl)) w))))))))" for pl
    by (intro keeps em.helpers empty_calls em.loading empty_or_return empty_dial em.awaiting empty_publish)
  have inner: "triple owned (bindM (with_lock HandleMu Exclusive (getM (\<lambda>s. m_wallet s \<noteq> 0))) (\<lambda>already.
      if already then retM e else m)) (\<lambda>_. owned) owned" if "keeps empty_table m" for e and m :: "json run"
  proof (rule triple_bind [OF already])
    fix b
    show "triple (\<lambda>s. if b then owned s else empty_table s) (if b then retM e else m) (\<lambda>_. owned) owned"
      using triple_conseq [of empty_table m "\<lambda>_. empty_table" empty_table empty_table "\<lambda>_. owned" owned] that
      by (cases b) (auto simp: triple_keeps empty_owned intro: triple_ret keeps_ret)
  qed
  show "triple owned (case r of Inl j \<Rightarrow> retM j
      | Inr pl \<Rightarrow> bindM (with_lock HandleMu Exclusive (getM (\<lambda>s. m_wallet s \<noteq> 0))) (\<lambda>already.
             if already then retM (err ''a wallet is already open; close it first'')
             else thenM (setState W Opening [])
               (bindM (getM (\<lambda>s. walletPath s (op_name pl))) (\<lambda>path.
                thenM (callU W (WM (WM_setDaemonAddress (c_str (hostPort (op_dialUrl pl))))))
                (bindM (load_wallet W k p pl path (nettypeOf (op_network pl))) (\<lambda>r. case r of
                    Inl j \<Rightarrow> retM j
                  | Inr w \<Rightarrow> or_return (check_loaded W pl (nettypeOf (op_network pl)) w)
                      (or_return (dial_wallet W k pl w) (or_return (await_node W pl w)
                        (publish_wallet W pl path (nettypeOf (op_network pl)) w)))))))))
      (\<lambda>_. owned) owned"
    using inner [OF opened] by (cases r) (auto intro: triple_ret keeps_ret simp: triple_keeps)
qed

lemma owned_close: "keeps owned (doClose W)"
  unfolding doClose_def detach_wallet_def close_detached_def
  by (intro keeps ow_calls ow.helpers keeps_mod) (auto simp: owned_def)

section \<open>Building\<close>

text \<open>With a wallet open, a transaction can be kept.\<close>

definition is_open :: "handle \<Rightarrow> rt \<Rightarrow> bool" where
  "is_open w s \<longleftrightarrow> m_wallet s = w \<and> w \<noteq> 0"

interpretation io: rt_invariant "is_open w" for w
  by unfold_locales (auto simp: is_open_def same_core_def drop_tx_def)

lemma open_owned: "is_open w s \<Longrightarrow> owned s"
  by (simp add: is_open_def owned_def)

lemma open_build: "keeps (is_open w) (buildTransaction W w' dst pid amount priority account)"
  unfolding buildTransaction_def
  by (intro keeps io.base io.taken keeps_mod) (simp_all add: is_open_def keep_tx_def)

lemma owned_create: "keeps owned (doCreateTransaction W p)"
proof -
  have rest: "triple (\<lambda>s. owned s \<and> m_wallet s = w) m (\<lambda>_ t. owned (t\<lparr>hist := ev # hist t\<rparr>)) (\<lambda>t. owned (t\<lparr>hist := ev # hist t\<rparr>))"
    if "w \<noteq> 0" "keeps (is_open w) m" for w ev and m :: "json run"
    by (rule triple_conseq [of "is_open w" _ "\<lambda>_. is_open w" "is_open w"])
      (use that in \<open>auto simp: triple_keeps is_open_def owned_def\<close>)
  show ?thesis
    unfolding doCreateTransaction_def triple_keeps [symmetric]
    by (rule triple_with_lock [where P' = owned], simp add: ow.event,
        rule triple_bind [where R = "\<lambda>w s. owned s \<and> m_wallet s = w", OF triple_get], simp, rule triple_if, rule triple_ret,
        simp add: ow.event, rule rest, assumption) (intro keeps io.primitives io.helpers open_build; simp)
qed

section \<open>The rest of the runtime\<close>

lemma owned_moves: "keeps owned (moveToTor W abandon resolved)"
  unfolding moveToTor_def relocate_def goOffline_def quieten_def redial_def dial_tor_def settle_route_def
  by (intro keeps owned_calls ow.base(4) ow.locked ow.taken ow.sockets ow.helpers owned_mod) (simp_all add: Let_def)

lemma owned_tick: "keeps owned (tick W)" "keeps owned (idle W)"
  unfolding idle_def tick_def by (intro keeps ow.primitives ow.helpers ow.deciding owned_moves; simp)+

lemma owned_run: "keeps owned (run_job W k params)"
  unfolding run_job_def dispatch_def
  by (intro keeps ow.helpers ow.jobs owned_open owned_close owned_create)

end
