(* ===== verification/System.thy ===== *)
theory System
  imports Ticket_Spec Outcomes Secrets Pending
begin

text \<open>
  The whole module as a state machine: the runtime, the tickets and the worker, which the host drives with
  calls in any order, the worker with its turns and the probe with its readings. Each call, turn and job
  body is one step; what may overlap inside them is the subject of \<open>Protocol\<close>.
\<close>

section \<open>The machine\<close>

text \<open>Where the worker is in \<^verbatim>\<open>threadMain\<close> and \<^verbatim>\<open>run\<close>.\<close>

datatype worker =
    Waiting
  | Running ptr
  | Answered ptr json
  | Announcing string string
  | Ended
  | Closed

fun running :: "worker \<Rightarrow> ptr option" where
  "running (Running p) = Some p"
| "running (Answered p out) = Some p"
| "running _ = None"

text \<open>Where the probe is in \<^verbatim>\<open>probeMain\<close>: in its wait, on its way to a reading, or returned.\<close>

datatype prober = Watching | Woken | Gone

text \<open>The end of the probe's wait, and what \<^verbatim>\<open>shutdown\<close> joins before it closes the wallet.\<close>

definition probe_wait :: "tickets \<Rightarrow> prober" where
  "probe_wait t = (if m_stop t then Gone else Woken)"

definition joined :: "worker \<Rightarrow> prober \<Rightarrow> bool" where
  "joined w p \<longleftrightarrow> w = Ended \<and> p = Gone"

record sys =
  s_rt :: rt
  s_tickets :: tickets
  s_worker :: worker
  s_probe :: prober

definition init_sys :: sys where
  "init_sys = \<lparr>s_rt = init_rt, s_tickets = init_tickets, s_worker = Waiting, s_probe = Watching\<rparr>"

text \<open>The calls on tickets the host makes; a job starts with the directory of the runtime.\<close>

fun host_call :: "string \<Rightarrow> tcall \<Rightarrow> bool" where
  "host_call walletsDir (CStart dir kind params draws) \<longleftrightarrow> dir = walletsDir"
| "host_call walletsDir CTurn \<longleftrightarrow> False"
| "host_call walletsDir (CSettle out) \<longleftrightarrow> False"
| "host_call walletsDir _ \<longleftrightarrow> True"

text \<open>
  A step, and whether it is a \<^verbatim>\<open>startJob\<close>. No step leaves a state where the process was terminated. An
  exception that \<^verbatim>\<open>run\<close> lets through is swallowed by \<^verbatim>\<open>threadMain\<close>, the job left as it is. The methods
  answer at any time, after the shutdown too; the wallet is closed once both threads were joined.
\<close>

inductive sys_step :: "world \<Rightarrow> sys \<Rightarrow> bool \<Rightarrow> sys \<Rightarrow> bool" for W where
  host: "host_call (m_walletsDir (s_rt s)) c \<Longrightarrow> exec (w_what W) c (s_tickets s, running (s_worker s)) = (a, t, r) \<Longrightarrow>
    sys_step W s (is_start c) (s\<lparr>s_tickets := t\<rparr>)"
| api_method: "api W c (s_rt s) = (r, u) \<Longrightarrow> r \<noteq> Inl Terminated \<Longrightarrow> sys_step W s False (s\<lparr>s_rt := u\<rparr>)"
| ready_dir: "onContextReady W dir (s_rt s) = (r, u) \<Longrightarrow> r \<noteq> Inl Terminated \<Longrightarrow> sys_step W s False (s\<lparr>s_rt := u\<rparr>)"
| probe_wakes: "s_probe s = Watching \<Longrightarrow> sys_step W s False (s\<lparr>s_probe := probe_wait (s_tickets s)\<rparr>)"
| reading: "s_probe s = Woken \<Longrightarrow> probe W (s_rt s) = (r, u) \<Longrightarrow> r \<noteq> Inl Terminated \<Longrightarrow>
    sys_step W s False (s\<lparr>s_rt := u, s_probe := Watching\<rparr>)"
| idle_turn: "s_worker s = Waiting \<Longrightarrow> next_turn (s_tickets s) = (Tick, t) \<Longrightarrow> idle W (s_rt s) = (r, u) \<Longrightarrow> r \<noteq> Inl Terminated \<Longrightarrow>
    sys_step W s False (s\<lparr>s_tickets := t, s_rt := u\<rparr>)"
| take_job: "s_worker s = Waiting \<Longrightarrow> next_turn (s_tickets s) = (RunJob p, t) \<Longrightarrow>
    sys_step W s False (s\<lparr>s_tickets := t, s_worker := Running p\<rparr>)"
| end_turn: "s_worker s = Waiting \<Longrightarrow> next_turn (s_tickets s) = (Stop, t) \<Longrightarrow>
    sys_step W s False (s\<lparr>s_tickets := t, s_worker := Ended\<rparr>)"
| job: "s_worker s = Running p \<Longrightarrow> j = heap (s_tickets s) p \<Longrightarrow> run_job W (j_kind j) (j_params j) (s_rt s) = (Inr out, u) \<Longrightarrow>
    sys_step W s False (s\<lparr>s_rt := u, s_worker := Answered p out\<rparr>)"
| job_lost: "s_worker s = Running p \<Longrightarrow> j = heap (s_tickets s) p \<Longrightarrow> run_job W (j_kind j) (j_params j) (s_rt s) = (Inl e, u) \<Longrightarrow>
    e \<noteq> Terminated \<Longrightarrow> sys_step W s False (s\<lparr>s_rt := u, s_worker := Waiting\<rparr>)"
| settled: "s_worker s = Answered p out \<Longrightarrow> settle (w_what W) p out (s_tickets s) = (Inr st, t) \<Longrightarrow>
    sys_step W s False (s\<lparr>s_tickets := t, s_worker := Announcing (j_id (heap t p)) st\<rparr>)"
| answer_lost: "s_worker s = Answered p out \<Longrightarrow> settle (w_what W) p out (s_tickets s) = (Inl e, t) \<Longrightarrow>
    sys_step W s False (s\<lparr>s_tickets := t, s_worker := Waiting\<rparr>)"
| announced: "s_worker s = Announcing i st \<Longrightarrow> announce W i st (s_rt s) = (r, u) \<Longrightarrow> r \<noteq> Inl Terminated \<Longrightarrow>
    sys_step W s False (s\<lparr>s_rt := u, s_worker := Waiting\<rparr>)"
| closed_down: "joined (s_worker s) (s_probe s) \<Longrightarrow> shutdown_close W (s_rt s) = (r, u) \<Longrightarrow> r \<noteq> Inl Terminated \<Longrightarrow>
    sys_step W s False (s\<lparr>s_rt := u, s_worker := Closed\<rparr>)"

text \<open>The states reached, with the number of jobs asked for on the way.\<close>

inductive reach :: "world \<Rightarrow> nat \<Rightarrow> sys \<Rightarrow> bool" for W where
  start: "reach W 0 init_sys"
| step: "reach W n s \<Longrightarrow> sys_step W s b s' \<Longrightarrow> reach W (if b then Suc n else n) s'"

inductive_cases sys_stepE: "sys_step W s b s'"

section \<open>The runtime of a reachable state\<close>

text \<open>
  What every operation keeps holds in every reachable state; \<open>J\<close> is what is left of it once the
  module is shut down.
\<close>

definition kept_by_readers :: "world \<Rightarrow> (rt \<Rightarrow> bool) \<Rightarrow> bool" where
  "kept_by_readers W I \<longleftrightarrow> (\<forall>c. keeps I (api W c)) \<and> (\<forall>dir. keeps I (onContextReady W dir)) \<and> keeps I (probe W)"

definition kept_by_all :: "world \<Rightarrow> (rt \<Rightarrow> bool) \<Rightarrow> bool" where
  "kept_by_all W I \<longleftrightarrow> kept_by_readers W I \<and> keeps I (idle W) \<and> (\<forall>i st. keeps I (announce W i st)) \<and> (\<forall>k p. keeps I (run_job W k p))"

definition phase_inv :: "(rt \<Rightarrow> bool) \<Rightarrow> (rt \<Rightarrow> bool) \<Rightarrow> sys \<Rightarrow> bool" where
  "phase_inv I J s \<longleftrightarrow> (if s_worker s = Closed then J (s_rt s) else I (s_rt s))"

lemma step_phase_inv:
  assumes I: "kept_by_all W I" and J: "triple I (shutdown_close W) (\<lambda>_. J) J" "kept_by_readers W J"
    and "sys_step W s b s'" "phase_inv I J s"
  shows "phase_inv I J s'"
proof -
  have kept: "m (s_rt s) = (r, u) \<Longrightarrow> r \<noteq> Inl Terminated \<Longrightarrow> keeps I m \<Longrightarrow> I (s_rt s) \<Longrightarrow> I u" for m :: "'a run" and r u
    by (rule keepsD)
  have read: "m (s_rt s) = (r, u) \<Longrightarrow> r \<noteq> Inl Terminated \<Longrightarrow> keeps I m \<Longrightarrow> keeps J m \<Longrightarrow> phase_inv I J (s\<lparr>s_rt := u\<rparr>)" for m :: "'a run" and r u
    using assms(5) keepsD [of I m] keepsD [of J m] by (auto simp: phase_inv_def)
  note all = I [unfolded kept_by_all_def kept_by_readers_def] J(2) [unfolded kept_by_readers_def]
  from assms(4) show ?thesis
  proof (cases rule: sys_step.cases)
    case (api_method c r u)
    with read [of "api W c", OF api_method(3,4)] all show ?thesis by simp
  next
    case (ready_dir dir r u)
    with read [of "onContextReady W dir", OF ready_dir(3,4)] all show ?thesis by simp
  next
    case (reading r u)
    with read [of "probe W", OF reading(4,5)] all show ?thesis by (simp add: phase_inv_def split: if_splits)
  next
    case (idle_turn t r u)
    with kept [of "idle W", OF idle_turn(5,6)] all assms(5) show ?thesis by (simp add: phase_inv_def)
  next
    case (job p j out u)
    with kept [of "run_job W (j_kind j) (j_params j)", OF job(5)] all assms(5) show ?thesis by (simp add: phase_inv_def)
  next
    case (job_lost p j e u)
    with kept [of "run_job W (j_kind j) (j_params j)", OF job_lost(5)] all assms(5) show ?thesis by (simp add: phase_inv_def)
  next
    case (announced i st r u)
    with kept [of "announce W i st", OF announced(4,5)] all assms(5) show ?thesis by (simp add: phase_inv_def)
  next
    case (closed_down r u)
    with J(1) assms(5) show ?thesis by (cases r) (auto simp: phase_inv_def triple_iff joined_def)
  qed (use assms(5) in \<open>auto simp: phase_inv_def\<close>)
qed

lemma reach_phase_inv:
  assumes "kept_by_all W I" "triple I (shutdown_close W) (\<lambda>_. J) J" "kept_by_readers W J" "I init_rt" "reach W n s"
  shows "phase_inv I J s"
  using assms(5)
proof (induction rule: reach.induct)
  case start
  show ?case using assms(4) by (simp add: phase_inv_def init_sys_def)
qed (rule step_phase_inv [OF assms(1-3)])

text \<open>For what the shutdown keeps too, and for what is only claimed until then.\<close>

lemma reach_kept:
  assumes "kept_by_all W I" "keeps I (shutdown_close W)" "I init_rt" "reach W n s"
  shows "I (s_rt s)"
proof -
  have "kept_by_readers W I" using assms(1) by (simp add: kept_by_all_def)
  then have "phase_inv I I s"
    by (intro reach_phase_inv [OF assms(1) _ _ assms(3,4)]) (simp_all add: triple_keeps assms(2))
  then show ?thesis by (simp add: phase_inv_def split: if_splits)
qed

lemma reach_kept_until:
  assumes "kept_by_all W I" "I init_rt" "reach W n s" "s_worker s \<noteq> Closed"
  shows "I (s_rt s)"
proof -
  have "phase_inv I (\<lambda>_. True) s"
    by (rule reach_phase_inv [OF assms(1) _ _ assms(2,3)]) (simp_all add: triple_iff kept_by_readers_def keeps_def wp_def)
  then show ?thesis using assms(4) by (simp add: phase_inv_def)
qed

lemma secure_kept: "kept_by_all W secure"
  by (simp add: kept_by_all_def kept_by_readers_def sc.methods sc.life sc.probing secure_tick secure_run)

lemma owned_kept: "kept_by_all W owned"
  by (simp add: kept_by_all_def kept_by_readers_def ow.methods ow.life ow.probing owned_tick owned_run)

lemma reach_secure: "reach W n s \<Longrightarrow> secure (s_rt s)"
  by (rule reach_kept [OF secure_kept secure_shutdown]) (simp_all add: secure_def init_rt_def)

lemma reach_owned: "reach W n s \<Longrightarrow> s_worker s \<noteq> Closed \<Longrightarrow> owned (s_rt s)"
  by (rule reach_kept_until [OF owned_kept]) (simp_all add: owned_def init_rt_def)

section \<open>The tickets of a reachable state\<close>

definition tk_ok :: "sys \<Rightarrow> bool" where
  "tk_ok s \<longleftrightarrow> tickets_inv (s_tickets s, running (s_worker s)) \<and> (\<forall>p out. s_worker s = Answered p out \<longrightarrow> is_answer out)"

text \<open>The counter of job names stays behind the number of jobs asked for.\<close>

definition counted :: "nat \<Rightarrow> tickets \<Rightarrow> bool" where
  "counted n t \<longleftrightarrow> unat (m_nextId t) \<le> Suc n"

lemma host_step:
  assumes "tickets_inv (t, r)" "counted n t" "(if is_start c then Suc n else n) < 2 ^ 64 - 1" "host_call dir c"
    "exec wh c (t, r) = (a, t', r')"
  shows "tickets_inv (t', r) \<and> counted (if is_start c then Suc n else n) t'"
proof -
  have ne: "is_start c \<Longrightarrow> m_nextId t \<noteq> - 1"
    using assms(2,3) by (auto simp: counted_def max_u64)
  have "r' = r"
    using assms(4,5) by (cases c; cases r) (auto split: prod.splits)
  note sim = exec_sim [OF assms(1) _ assms(5), simplified, OF ne, unfolded this]
  from spec_next_unat(1) [OF conjunct1 [OF sim, unfolded board_state_def prod.case]] ne
  have "unat (m_nextId t') \<le> unat (m_nextId t) + (if is_start c then 1 else 0)"
    by (simp add: board_of_def)
  with sim assms(2) show ?thesis by (auto simp: counted_def)
qed

lemma take_step:
  assumes "tickets_inv (t, None)" "next_turn t = (turn, t')"
  shows "tickets_inv (t', case turn of RunJob p \<Rightarrow> Some p | _ \<Rightarrow> None) \<and> m_nextId t' = m_nextId t"
proof -
  have "m_nextId t' = m_nextId t" using assms(2) by (auto simp: next_turn_def split: if_splits list.splits)
  then show ?thesis
    using assms turn_sim [OF assms(1)] turn_idle [of t t'] by (cases turn) simp_all
qed

lemma settle_step:
  assumes "tickets_inv (t, Some p)" "is_answer out" "settle wh p out t = (x, t')"
  shows "(\<exists>st. x = Inr st \<and> st \<in> {''done'', ''failed''}) \<and> tickets_inv (t', None) \<and> m_nextId t' = m_nextId t \<and> j_state (heap t' p) \<in> {''done'', ''failed''}"
proof -
  obtain o' where o': "out = answer_json o'" using assms(2) by (auto simp: is_answer_def)
  show ?thesis
    using settle_sim [OF assms(1), of wh o'] settled_job(4) [of o' "heap t p"] assms(3)
    by (auto simp: o' settle_answer split: sum.splits)
qed

lemma step_tk_ok:
  assumes "sys_step W s b s'" "tk_ok s" "counted n (s_tickets s)" "(if b then Suc n else n) < 2 ^ 64 - 1"
  shows "tk_ok s' \<and> counted (if b then Suc n else n) (s_tickets s')"
  using assms
proof (induction rule: sys_step.induct)
  case (host s c a t r)
  then show ?case using host_step [of "s_tickets s" "running (s_worker s)" n c] by (auto simp: tk_ok_def)
next
  case (idle_turn s t r u)
  then show ?case using take_step [of "s_tickets s" Tick t] by (simp add: tk_ok_def counted_def)
next
  case (take_job s p t)
  then show ?case using take_step [of "s_tickets s" "RunJob p" t] by (simp add: tk_ok_def counted_def)
next
  case (end_turn s t)
  then show ?case using take_step [of "s_tickets s" Stop t] by (simp add: tk_ok_def counted_def)
next
  case (job s p j out u)
  have "j_kind j \<in> set kinds"
    using job inv_running [of "s_tickets s" "Some p" p] wf_in_table [of "s_tickets s" "Some p" p]
    by (auto simp: tk_ok_def job_wf_def)
  then have "is_answer out" by (rule yieldsD [OF answers_run job.hyps(3)])
  then show ?case using job by (simp add: tk_ok_def)
next
  case (job_lost s p j e u)
  then show ?case using throwsD [OF throws_run job_lost.hyps(3)] by simp
next
  case (settled s p out st t)
  then show ?case using settle_step [of "s_tickets s" p out _ "Inr st" t] by (simp add: tk_ok_def counted_def)
next
  case (answer_lost s p out e t)
  then have "tickets_inv (s_tickets s, Some p)" "is_answer out" by (simp_all add: tk_ok_def)
  from settle_step [OF this answer_lost.hyps(2)] show ?case by simp
qed (simp_all add: tk_ok_def joined_def)

lemma reach_tk_ok: "reach W n s \<Longrightarrow> n < 2 ^ 64 - 1 \<Longrightarrow> tk_ok s \<and> counted n (s_tickets s)"
proof (induction rule: reach.induct)
  case start
  show ?case using init_inv by (simp add: tk_ok_def init_sys_def counted_def) (simp add: init_tickets_def)
next
  case (step n s b s')
  then have "n < 2 ^ 64 - 1" by (simp split: if_splits)
  with step step_tk_ok show ?case by blast
qed

section \<open>A sample run\<close>

text \<open>A node module with Tor running, and the job that opens a wallet over it.\<close>

definition tor_node :: json where
  "tor_node = JObj [(''url'', JStr ''n:18081''), (''proxy'', JStr ''127.0.0.1:9050''), (''torUse'', JStr ''all'')]"

definition tor_world :: world where
  "tor_world = spending_world\<lparr>w_json := (\<lambda>_ _. tor_node)\<rparr>"

definition open_params :: json where
  "open_params = JObj [(''name'', JStr ''w''), (''network'', JStr ''mainnet''), (''password'', JStr ''pw'')]"

lemma tor_world_simps:
  "w_throw tor_world tr ev = None" "w_bool tor_world tr (WalletRead w W_watchOnly) = False"
  "w_bool tor_world tr (WM c) = True" "w_bool tor_world tr (Wallet w c') = True" "w_bool tor_world tr (FsExists f) = True"
  "w_handle tor_world tr ev = 1" "w_int tor_world tr ev = 0" "w_u64 tor_world tr ev = 0"
  "w_str tor_world tr ev = Some []" "w_json tor_world tr ev = tor_node" "w_has_notify tor_world = True"
  by (simp_all add: tor_world_def spending_world_def quiet_world_def)

text \<open>What the module reads of the request and of the node.\<close>

lemma sample_request:
  "value_str w open_params ''name'' [] = Inr ''w''" "value_str w open_params ''network'' [] = Inr ''mainnet''"
  "value_str w open_params ''password'' [] = Inr ''pw''"
  by (simp_all add: open_params_def value_simps)

lemma sample_node:
  "contains tor_node ''error'' = False" "str tor_node ''url'' = ''n:18081''" "str tor_node ''proxy'' = ''127.0.0.1:9050''"
  "str tor_node ''torUse'' = ''all''" "catchUp_url tor_node = []" "value_bool w tor_node ''proxyRequired'' False = Inr False"
  by (simp_all add: tor_node_def contains_def str_def catchUp_url_def value_simps)

lemma sample_choice:
  "bad_wallet_name ''w'' = False" "known_network ''mainnet'' = True" "choose_route [] ''127.0.0.1:9050'' = Tor"
  "nettypeOf ''mainnet'' = 0" "c_str ''pw'' = ''pw''"
  by code_simp+

lemmas sample_open = sample_request sample_node sample_choice

fun tells_state :: "event \<Rightarrow> bool" where
  "tells_state (Emit name p) \<longleftrightarrow> name = ''walletStateChanged''"
| "tells_state _ \<longleftrightarrow> False"

lemma open_tor_run:
  assumes "m_wallet u = 0" "m_walletsDir u = d"
  shows "\<exists>j t. doOpenLike tor_world ''open_wallet'' open_params u = (Inr j, t) \<and> m_wallet t = 1 \<and> m_route t = Tor \<and> m_network t = ''mainnet'' \<and>
    Wallet 1 (W_init (c_str (hostPort ''n:18081'')) 0 [] [] False False (c_str (proxyHostPort ''127.0.0.1:9050''))) \<in> set (hist t) \<and>
    WalletRead 1 (W_address 0 0) \<in> set (hist t) \<and> list_ex tells_state (hist t)"
  by (simp add: doOpenLike_def plan_open_def load_wallet_def check_loaded_def
      dial_wallet_def await_node_def publish_wallet_def hand_over_def or_return_def setState_def notifyOpen_def nowM_def
      catchM_def runs assms sample_open tor_world_simps Let_def)

lemma open_tor:
  assumes "m_wallet u = 0" "m_locksReset u" "m_walletsDir u = d"
  shows "\<exists>j t. run_job tor_world ''open_wallet'' open_params u = (Inr j, t) \<and> m_wallet t = 1 \<and> m_route t = Tor \<and> m_network t = ''mainnet'' \<and>
    WalletRead 1 (W_address 0 0) \<in> set (hist t) \<and> list_ex tells_state (hist t)"
  using open_tor_run [OF assms(1,3)] assms(2) by (auto simp: run_job_def dispatch_def resetLocksOnce_def catchM_def runs)

text \<open>The host gives the directory and asks for the wallet, and the worker takes the job.\<close>

lemma ready_tor:
  "\<exists>u. onContextReady tor_world ''d'' init_rt = (Inr (), u) \<and> m_wallet u = 0 \<and> m_walletsDir u = ''d/wallets'' \<and> \<not> m_locksReset u"
  by (simp add: onContextReady_def setWalletsDir_def path_join_def runs init_rt_def tor_world_simps Let_def)

lemma reset_tor:
  assumes "m_wallet u = 0" "m_walletsDir u \<noteq> []"
  shows "\<exists>v. idle tor_world u = (Inr (), v) \<and> m_wallet v = 0 \<and> m_walletsDir v = m_walletsDir u \<and> m_locksReset v"
  using assms by (simp add: idle_def tick_def resetLocksOnce_def notifyOpen_def catchM_def runs tor_world_simps)

lemma sample_running:
  "\<exists>s p. reach tor_world 1 s \<and> s_worker s = Running p \<and> j_kind (heap (s_tickets s) p) = ''open_wallet'' \<and>
     j_params (heap (s_tickets s) p) = open_params \<and> m_wallet (s_rt s) = 0 \<and> m_locksReset (s_rt s)"
proof -
  obtain u where u: "onContextReady tor_world ''d'' init_rt = (Inr (), u)" "m_wallet u = 0" "m_walletsDir u = ''d/wallets''"
    using ready_tor by blast
  obtain v where v: "idle tor_world u = (Inr (), v)" "m_wallet v = 0" "m_walletsDir v = ''d/wallets''" "m_locksReset v"
    using reset_tor [of u] u by auto
  let ?s1 = "init_sys\<lparr>s_rt := u\<rparr>"
  let ?s2 = "init_sys\<lparr>s_rt := v\<rparr>"
  have "reach tor_world 0 ?s1"
    using reach.step [OF reach.start sys_step.ready_dir [of tor_world "''d''" init_sys "Inr ()" u]] u
    by (simp add: init_sys_def)
  then have r2: "reach tor_world 0 ?s2"
    using reach.step [OF _ sys_step.idle_turn [of ?s1 init_tickets tor_world "Inr ()" v], of 0] v
    by (simp add: init_sys_def next_turn_def init_tickets_def)
  obtain a t where start: "startJob ''d/wallets'' ''open_wallet'' open_params [] init_tickets = (a, t)" by fastforce
  have "''open_wallet'' \<in> set kinds" by (simp add: kinds_def)
  from startJob_accepted [OF this, of "''d/wallets''" open_params "[]" init_tickets] start
  have t: "m_queue t = [0]" "\<not> m_stop t" "j_kind (heap t 0) = ''open_wallet''" "j_params (heap t 0) = open_params"
    by (auto simp: Let_def init_tickets_def open_params_def)
  let ?s3 = "?s2\<lparr>s_tickets := t\<rparr>"
  have r3: "reach tor_world 1 ?s3"
    using reach.step [OF r2 sys_step.host [of "?s2" "CStart ''d/wallets'' ''open_wallet'' open_params []" tor_world "AJson a" t None]]
      start v by (simp add: init_sys_def)
  obtain t' where t': "next_turn t = (RunJob 0, t')" "j_kind (heap t' 0) = ''open_wallet''" "j_params (heap t' 0) = open_params"
    using t by (simp add: next_turn_def)
  have "reach tor_world 1 (?s3\<lparr>s_tickets := t', s_worker := Running 0\<rparr>)"
    using reach.step [OF r3 sys_step.take_job [of ?s3 0 t']] t' by (simp add: init_sys_def)
  then show ?thesis using t' v by (intro exI conjI) (assumption | simp)+
qed

lemma sample_on_tor:
  "\<exists>s. reach tor_world 1 s \<and> m_wallet (s_rt s) = 1 \<and> m_route (s_rt s) = Tor \<and> m_network (s_rt s) = ''mainnet'' \<and>
     WalletRead 1 (W_address 0 0) \<in> set (hist (s_rt s)) \<and> list_ex tells_state (hist (s_rt s))"
proof -
  obtain s p where s: "reach tor_world 1 s" "s_worker s = Running p" "j_kind (heap (s_tickets s) p) = ''open_wallet''"
    "j_params (heap (s_tickets s) p) = open_params" "m_wallet (s_rt s) = 0" "m_locksReset (s_rt s)"
    using sample_running by blast
  obtain j t where t: "run_job tor_world ''open_wallet'' open_params (s_rt s) = (Inr j, t)" "m_wallet t = 1" "m_route t = Tor"
    "m_network t = ''mainnet''" "WalletRead 1 (W_address 0 0) \<in> set (hist t)"
    "list_ex tells_state (hist t)" using open_tor [OF s(5,6) refl] by blast
  have "reach tor_world 1 (s\<lparr>s_rt := t, s_worker := Answered p j\<rparr>)"
    using reach.step [OF s(1) sys_step.job [of s p "heap (s_tickets s) p" tor_world j t]] s t by simp
  with t show ?thesis by (intro exI conjI) (assumption | simp)+
qed

section \<open>What every run of the module has\<close>



text \<open>C22. No transaction outlives its wallet: in every state the module reaches before its shutdown, with no wallet open no
  transaction is kept, so none can be sent with another wallet later.\<close>

theorem handles_die_with_wallet:
  assumes "reach W n s" "s_worker s \<noteq> Closed" "m_wallet (s_rt s) = 0"
  shows "m_pendingTx (s_rt s) = Map.empty"
  using reach_owned [OF assms(1,2)] assms(3) by (simp add: owned_def)

lemma handles_die_with_wallet_witness:
  "\<exists>s. reach tor_world 1 s \<and> m_wallet (s_rt s) = 0 \<and> m_pendingTx (s_rt s) = Map.empty"
proof -
  obtain s p where s: "reach tor_world 1 s" "s_worker s = Running p" "m_wallet (s_rt s) = 0"
    using sample_running by blast
  then show ?thesis using handles_die_with_wallet [OF s(1)] by auto
qed

text \<open>C21. The tickets of every reachable state are in order, as long as fewer than \<open>2 ^ 64 - 1\<close> jobs were asked for: names in use
  were issued and name their own job, the queue holds the queued jobs once each, one job runs exactly while the worker has it.\<close>

theorem reachable_tickets:
  assumes "reach W n s" "n < 2 ^ 64 - 1"
  shows "tickets_inv (s_tickets s, running (s_worker s))"
  using reach_tk_ok [OF assms] by (simp add: tk_ok_def)

lemma reachable_tickets_witness:
  "\<exists>(s :: sys) p. s_worker s = Running p \<and> tickets_inv (s_tickets s, Some p)"
proof -
  obtain s p where s: "reach tor_world 1 s" "s_worker s = Running p"
    using sample_running by blast
  have "tickets_inv (s_tickets s, running (s_worker s))" by (rule reachable_tickets [OF s(1)]) simp
  then show ?thesis using s(2) by (intro exI [of _ s] exI [of _ p]) simp
qed

text \<open>C20. A job the worker has taken ends: whatever the engine answers or throws, if the process is not terminated, two steps of the
  worker leave the job "done" or "failed" and its event to be sent, and the worker waits again after it.\<close>

theorem taken_job_ends:
  assumes "reach W n s" "n < 2 ^ 64 - 1" "s_worker s = Running p"
    and "fst (run_job W (j_kind (heap (s_tickets s) p)) (j_params (heap (s_tickets s) p)) (s_rt s)) \<noteq> Inl Terminated"
  shows "\<exists>s1 s2 st. sys_step W s False s1 \<and> sys_step W s1 False s2 \<and> st \<in> {''done'', ''failed''} \<and>
    j_state (heap (s_tickets s2) p) = st \<and> s_worker s2 = Announcing (j_id (heap (s_tickets s) p)) st"
proof -
  have inv: "tickets_inv (s_tickets s, Some p)" using reach_tk_ok [OF assms(1,2)] assms(3) by (simp add: tk_ok_def)
  let ?j = "heap (s_tickets s) p"
  have k: "j_kind ?j \<in> set kinds"
    using inv_running [OF inv, of p] wf_in_table [OF inv, of p] by (simp add: job_wf_def)
  obtain a u where run: "run_job W (j_kind ?j) (j_params ?j) (s_rt s) = (Inr (answer_json a), u)"
    using run_outcome [OF k, of W "j_params ?j" "s_rt s"] assms(4)
    by (cases "run_job W (j_kind ?j) (j_params ?j) (s_rt s)") auto
  let ?s1 = "s\<lparr>s_rt := u, s_worker := Answered p (answer_json a)\<rparr>"
  let ?t = "update_job p (settled_job a) (s_tickets s)"
  let ?s2 = "?s1\<lparr>s_tickets := ?t, s_worker := Announcing (j_id (heap ?t p)) (j_state (settled_job a ?j))\<rparr>"
  have "sys_step W s False ?s1" using sys_step.job [OF assms(3) refl run] .
  moreover have "sys_step W ?s1 False ?s2"
    using sys_step.settled [of ?s1 p "answer_json a" W "j_state (settled_job a ?j)" ?t] by (simp add: settle_answer)
  moreover have "j_state (settled_job a ?j) \<in> {''done'', ''failed''}"
    by (cases a) (simp_all add: settled_job_def)
  ultimately show ?thesis by (intro exI conjI) (assumption | simp add: settled_job(1))+
qed

lemma taken_job_ends_witness:
  "\<exists>s p s1 s2 st. s_worker s = Running p \<and> sys_step tor_world s False s1 \<and> sys_step tor_world s1 False s2 \<and>
     j_state (heap (s_tickets s2) p) = st \<and> st \<in> {''done'', ''failed''}"
proof -
  obtain s p where s: "reach tor_world 1 s" "s_worker s = Running p" "j_kind (heap (s_tickets s) p) = ''open_wallet''"
    "j_params (heap (s_tickets s) p) = open_params" "m_wallet (s_rt s) = 0" "m_locksReset (s_rt s)"
    using sample_running by blast
  have "\<exists>j t. run_job tor_world ''open_wallet'' open_params (s_rt s) = (Inr j, t)"
    using open_tor [OF s(5,6) refl] by blast
  then have "fst (run_job tor_world (j_kind (heap (s_tickets s) p)) (j_params (heap (s_tickets s) p)) (s_rt s)) \<noteq> Inl Terminated"
    by (auto simp: s)
  from taken_job_ends [OF s(1) _ s(2) this] s(2) show ?thesis by fastforce
qed

section \<open>Money and the route\<close>

fun moves_money :: "event \<Rightarrow> bool" where
  "moves_money (Wallet w (W_createTransaction a b c d e f g h)) = True"
| "moves_money (PendingTx pt (PT_commit f o')) = True"
| "moves_money _ = False"

definition money_rule :: "rt \<Rightarrow> trace \<Rightarrow> event \<Rightarrow> bool" where
  "money_rule s tr ev \<longleftrightarrow> (moves_money ev \<longrightarrow> m_wallet s \<noteq> 0 \<and> (m_route s = Direct \<or> m_route s = Tor))"

lemma money_lenient: "lenient (money_rule s)"
proof -
  have "ordinary ev \<Longrightarrow> \<not> moves_money ev" for ev by (cases ev rule: moves_money.cases) auto
  then show ?thesis by (simp add: lenient_def money_rule_def)
qed

lemma commit_money: "keeps (stays s (money_rule s)) (doCommit W p)"
  unfolding doCommit_def sendsWaitForTor_def
proof (rule stay_lock [OF money_lenient], rule stay_bind_wallet, rule keeps_if, rule keeps_ret,
    rule stay_bind_state [OF money_lenient], simp, simp add: stays_def, rule keeps_if, rule keeps_ret,
    rule stay_pause [OF money_lenient])
  assume "m_wallet s \<noteq> 0" "\<not> (m_route s = CatchUp \<or> m_route s = WaitingForTor)"
  then have ok: "m_wallet s \<noteq> 0" "m_route s = Direct \<or> m_route s = Tor" by (cases "m_route s"; simp)+
  have "keeps (stays s (money_rule s)) (commitTransaction W (m_wallet s) h pt)" for h pt
    unfolding commitTransaction_def
    by (intro keeps stay_take [OF money_lenient] stay_call stay_mod) (use ok in \<open>simp_all add: money_rule_def drop_tx_def\<close>)
  then show "keeps (stays s (money_rule s)) (bindM (liftM (value_str (w_what W) p ''txHandle'' [])) (\<lambda>handle.
      bindM (getM (\<lambda>s. m_pendingTx s handle)) (\<lambda>it. case it of None \<Rightarrow> retM (err ''unknown txHandle'')
        | Some pt \<Rightarrow> commitTransaction W (m_wallet s) handle pt)))"
    by (intro keeps)
qed

lemma build_money: "grows (build_rule W p s) h tr \<Longrightarrow> grows (money_rule s) h tr"
proof (erule grows_mono)
  fix tr ev assume "build_rule W p s tr ev"
  then show "money_rule s tr ev"
    by (cases ev rule: moves_money.cases) (auto simp: money_rule_def)
qed


lemma tor_builds:
  assumes "valid a ''mainnet''" "m_wallet u = 1" "m_route u = Tor" "m_network u = ''mainnet''"
  shows "\<exists>j t later. doCreateTransaction tor_world (sample_send a) u = (Inr j, t) \<and>
    hist t = later @ Wallet 1 (W_createTransaction a [] 5 0 0 0 [] '','') #
      [Unlock StateMu, Lock StateMu Exclusive, WalletRead 1 W_watchOnly, Wallet 1 W_pauseRefresh,
       Unlock StateMu, Lock StateMu Exclusive, Lock HandleMu Exclusive] @ hist u"
proof -
  have n: "to_string 5 = ''5''" "c_str '','' = '',''" "c_str [] = []"
    by code_simp+
  have five: "parseAtomic ''5'' = Some 5" using parseAtomic_to_string [of 5] by (simp add: n)
  have p: "value_str w (sample_send a) ''amount'' [] = Inr ''5''" "value_str w (sample_send a) ''address'' [] = Inr a"
    "value_num w (sample_send a) ''priority'' 0 = Inr 0" "value_num w (sample_send a) ''accountIndex'' 0 = Inr 0"
    "value_str w (sample_send a) ''paymentId'' [] = Inr []" for w
    by (simp_all add: sample_send_def value_simps)
  show ?thesis
    using assms by (simp add: doCreateTransaction_def buildTransaction_def runs sendsWaitForTor_def p n five
      tor_world_simps keep_tx_def valid_c_str [OF assms(1)])
qed


end
