(* ===== verification/Open_Spec.thy ===== *)
theory Open_Spec
  imports System
begin

text \<open>
  What opening a wallet does with the node module's answer: refused before anything is touched where the
  answer does not allow a connection, and otherwise dialled exactly as answered.
\<close>

section \<open>Refusals\<close>

text \<open>The node module's answer to this opening.\<close>

definition node_at :: "world \<Rightarrow> rt \<Rightarrow> string \<Rightarrow> json" where
  "node_at W s network = w_json W (hist s) (Resolve network)"

text \<open>C13. Opening fails closed: where the node module answers with an error, without an address, or requires a proxy and
  names none, the answer is an error, and nothing was done but asking it: no file is touched, no wallet is opened, nothing is
  dialled.\<close>

theorem open_fails_closed:
  assumes "value_str (w_what W) p ''name'' [] = Inr name" "value_str (w_what W) p ''password'' [] = Inr pw"
    "value_str (w_what W) p ''network'' [] = Inr network" "\<not> bad_wallet_name name" "known_network network"
    "w_throw W (hist s) (Resolve network) = None"
    and "value_bool (w_what W) (node_at W s network) ''proxyRequired'' False = Inr required"
    and "contains (node_at W s network) ''error'' \<or> str (node_at W s network) ''url'' = [] \<or>
      required \<and> str (node_at W s network) ''proxy'' = []"
  shows "\<exists>e. doOpenLike W k p s = (Inr (err e), s\<lparr>hist := Resolve network # hist s\<rparr>)"
proof -
  define node where "node = w_json W (hist s) (Resolve network)"
  have node: "node_at W s network = node" by (simp add: node_at_def node_def)
  note refuse = assms(8) [unfolded node]
  have "\<exists>e. plan_open W p s = (Inr (Inl (err e)), s\<lparr>hist := Resolve network # hist s\<rparr>)"
  proof (cases "contains node ''error''")
    case True
    then show ?thesis using assms(1-6) by (simp add: plan_open_def runs Let_def node_def [symmetric], blast)
  next
    case ok: False
    show ?thesis
    proof (cases "str node ''url'' = []")
      case True
      then show ?thesis using assms(1-7) ok by (simp add: plan_open_def runs Let_def node node_def [symmetric], blast)
    next
      case False
      then have "required" "str node ''proxy'' = []" using refuse ok by simp_all
      then show ?thesis using assms(1-7) ok False by (simp add: plan_open_def runs Let_def node node_def [symmetric], blast)
    qed
  qed
  then show ?thesis by (auto simp: doOpenLike_def runs)
qed

lemma open_fails_closed_witness:
  "\<exists>e. doOpenLike (tor_world\<lparr>w_json := \<lambda>_ _. JObj [(''url'', JStr ''n:18081''), (''proxyRequired'', JBool True)]\<rparr>) ''open_wallet''
     open_params init_rt = (Inr (err e), init_rt\<lparr>hist := [Resolve ''mainnet'']\<rparr>)"
proof -
  let ?W = "tor_world\<lparr>w_json := \<lambda>_ _. JObj [(''url'', JStr ''n:18081''), (''proxyRequired'', JBool True)]\<rparr>"
  have c: "\<not> bad_wallet_name ''w''" "known_network ''mainnet''" by code_simp+
  have t: "w_throw ?W (hist init_rt) (Resolve ''mainnet'') = None" by (simp add: tor_world_simps)
  have b: "value_bool (w_what ?W) (node_at ?W init_rt ''mainnet'') ''proxyRequired'' False = Inr True"
    by (simp add: node_at_def value_simps)
  have q: "True \<and> str (node_at ?W init_rt ''mainnet'') ''proxy'' = []" by (simp add: node_at_def str_def)
  from open_fails_closed [OF sample_request(1,3,2) c t b disjI2 [OF disjI2 [OF q]]] show ?thesis by (simp add: init_rt_def)
qed

section \<open>Dialled as answered\<close>

definition told_url :: "json \<Rightarrow> string" where
  "told_url node = (if choose_route (catchUp_url node) (str node ''proxy'') = CatchUp then catchUp_url node else str node ''url'')"

definition told_proxy :: "json \<Rightarrow> string" where
  "told_proxy node = (case choose_route (catchUp_url node) (str node ''proxy'') of
     Tor \<Rightarrow> proxyHostPort (str node ''proxy'') | WaitingForTor \<Rightarrow> kNoRoute | _ \<Rightarrow> [])"

definition told :: "world \<Rightarrow> json \<Rightarrow> rt \<Rightarrow> open_plan \<Rightarrow> bool" where
  "told W p s pl \<longleftrightarrow> value_str (w_what W) p ''network'' [] = Inr (op_network pl) \<and>
     (let node = node_at W s (op_network pl) in
       op_url pl = str node ''url'' \<and> op_dialUrl pl = told_url node \<and> op_dialProxy pl = told_proxy node \<and>
       op_route pl = choose_route (catchUp_url node) (str node ''proxy''))"

fun open_rule :: "world \<Rightarrow> json \<Rightarrow> rt \<Rightarrow> trace \<Rightarrow> event \<Rightarrow> bool" where
  "open_rule W p s tr (Wallet w (W_init a n u pw ssl lw x)) \<longleftrightarrow> (\<exists>network. value_str (w_what W) p ''network'' [] = Inr network \<and>
     (let node = node_at W s network in a = c_str (hostPort (told_url node)) \<and> x = c_str (told_proxy node)))"
| "open_rule W p s tr (Wallet w (W_setTrustedDaemon b)) \<longleftrightarrow> (b \<longrightarrow> (\<exists>network. value_str (w_what W) p ''network'' [] = Inr network \<and>
     (let node = node_at W s network in
       choose_route (catchUp_url node) (str node ''proxy'') = Direct \<and> isLoopback (str node ''url''))))"
| "open_rule W p s tr _ = True"

abbreviation grown :: "world \<Rightarrow> json \<Rightarrow> rt \<Rightarrow> rt \<Rightarrow> bool" where
  "grown W p s t \<equiv> grows (open_rule W p s) (hist s) (hist t)"

lemma undialled_rule: "\<not> dials ev \<Longrightarrow> open_rule W p s tr ev"
  by (cases "(W, p, s, tr, ev)" rule: open_rule.cases) auto

interpretation gr: rt_invariant "grown W p s" for W p s
  by unfold_locales (auto simp: same_core_def drop_tx_def intro: grows.event undialled_rule)

lemma grown_call:
  "(\<And>tr. open_rule W p s tr ev) \<Longrightarrow> keeps (grown W p s) (call W' ans ev)" "(\<And>tr. open_rule W p s tr ev) \<Longrightarrow> keeps (grown W p s) (callU W' ev)"
  by (intro keeps_call keeps_callU; simp add: grows.event)+

lemma grown_mod: "(\<And>s. hist (f s) = hist s) \<Longrightarrow> keeps (grown W p s0) (modM f)"
  by (rule keeps_mod) simp

lemma plan_told:
  assumes "plan_open W p s = (Inr (Inr pl), t)"
  shows "told W p s pl"
proof -
  obtain name pw network where v: "value_str (w_what W) p ''name'' [] = Inr name" "value_str (w_what W) p ''password'' [] = Inr pw"
    "value_str (w_what W) p ''network'' [] = Inr network"
    using assms by (auto simp: plan_open_def runs split: sum.splits)
  define node where "node = w_json W (hist s) (Resolve network)"
  obtain required where r: "value_bool (w_what W) node ''proxyRequired'' False = Inr required"
    using assms by (auto simp: plan_open_def runs v Let_def node_def split: sum.splits option.splits if_splits)
  show ?thesis
    using assms v by (auto simp: plan_open_def runs Let_def node_def [symmetric] r told_def node_at_def told_url_def told_proxy_def
        split: option.splits if_splits route.splits)
qed

lemma grown_dial:
  assumes "told W p s pl"
  shows "keeps (grown W p s) (dial_wallet W k pl w)"
  unfolding dial_wallet_def
  by (intro keeps gr.taken gr.helpers grown_call) (use assms in \<open>auto simp: told_def Let_def\<close>)

lemma grown_publish: "keeps (grown W p s) (publish_wallet W pl path nettype w)"
  unfolding publish_wallet_def hand_over_def by (intro keeps gr.base gr.locked gr.taken gr.helpers grown_mod; simp)

lemma grown_return: "keeps (grown W p s) m \<Longrightarrow> keeps (grown W p s) k \<Longrightarrow> keeps (grown W p s) (or_return m k)"
  unfolding or_return_def by (intro keeps)

lemma grown_open: "wp (doOpenLike W k p) (\<lambda>r t. r = Inl Terminated \<or> grown W p s t) s"
proof -
  have opened: "keeps (grown W p s) (bindM (with_lock HandleMu Exclusive (getM (\<lambda>s. m_wallet s \<noteq> 0))) (\<lambda>already.
      if already then retM (err e)
      else thenM (setState W Opening []) (bindM (getM (\<lambda>s. walletPath s (op_name pl))) (\<lambda>path.
        thenM (callU W (WM (WM_setDaemonAddress (c_str (hostPort (op_dialUrl pl))))))
        (bindM (load_wallet W k p pl path nettype) (\<lambda>r. case r of
            Inl j \<Rightarrow> retM j
          | Inr w \<Rightarrow> or_return (check_loaded W pl nettype w) (or_return (dial_wallet W k pl w)
              (or_return (await_node W pl w) (publish_wallet W pl path nettype w)))))))))"
    if "told W p s pl" for pl e nettype
    by (intro keeps gr.locked gr.helpers gr.base gr.loading grown_return grown_dial [OF that] gr.awaiting grown_publish) simp
  have "wp (plan_open W p) (\<lambda>r t. r = Inl Terminated \<or> grown W p s t) s"
    by (rule keeps_wp [OF gr.planning]) (rule grows.start)
  moreover have "wp (plan_open W p) (\<lambda>r t. \<forall>pl. r = Inr (Inr pl) \<longrightarrow> told W p s pl) s"
    by (rule wpI) (auto dest: plan_told)
  ultimately have "wp (plan_open W p) (\<lambda>r t. (r = Inl Terminated \<or> grown W p s t) \<and> (\<forall>pl. r = Inr (Inr pl) \<longrightarrow> told W p s pl)) s"
    by (simp add: wp_conj)
  then show ?thesis
    unfolding doOpenLike_def Let_def wp_bind
    apply (rule wp_mono)
    subgoal premises h for r t
    proof (cases r)
      case (Inr x)
      with h have t: "grown W p s t" "\<forall>pl. x = Inr pl \<longrightarrow> told W p s pl" by simp_all
      show ?thesis
      proof (cases x)
        case (Inr pl)
        with t(2) have pl: "told W p s pl" by simp
        show ?thesis unfolding \<open>r = Inr x\<close> Inr sum.case by (rule keeps_wp [OF opened [OF pl] t(1)])
      qed (use t in \<open>simp add: \<open>r = Inr x\<close> wp_ret\<close>)
    qed (use h in auto)
    done
qed



section \<open>A proxy that is none\<close>

text \<open>A proxy setting that is only a scheme is taken for a proxy and dialled as none: it passes the check for a required
  proxy, the route is Tor, and yet wallet2 is given the empty proxy, which is the connection in the clear the check refuses.\<close>

theorem scheme_only_proxy_is_none:
  assumes "\<forall>c\<in>set scheme. c \<noteq> CHR '':''" "str node ''proxy'' = scheme @ ''://''" "catchUp_url node = []"
  shows "str node ''proxy'' \<noteq> [] \<and> choose_route (catchUp_url node) (str node ''proxy'') = Tor \<and> told_proxy node = []"
proof -
  have "proxyHostPort (scheme @ ''://'') = []"
    using find_scheme [OF assms(1), of "[]"] by (simp add: proxyHostPort_def pop_slashes.simps)
  with assms show ?thesis by (simp add: choose_route_def told_proxy_def)
qed

lemma scheme_only_proxy_is_none_witness:
  "str (JObj [(''url'', JStr ''n''), (''proxy'', JStr ''socks5://''), (''proxyRequired'', JBool True)]) ''proxy'' \<noteq> [] \<and>
   told_proxy (JObj [(''url'', JStr ''n''), (''proxy'', JStr ''socks5://''), (''proxyRequired'', JBool True)]) = []"
  using scheme_only_proxy_is_none [of "''socks5''" "JObj [(''url'', JStr ''n''), (''proxy'', JStr ''socks5://''), (''proxyRequired'', JBool True)]"]
  by (simp add: str_def catchUp_url_def)

end
