(* ===== verification/Tor_Spec.thy ===== *)
theory Tor_Spec
  imports System
begin

text \<open>
  Where the routes lead: what a move to Tor ends with, and which way the idle turns go.
\<close>

section \<open>Routes only move toward Tor\<close>

text \<open>At a given route, or at one a move can end with.\<close>

definition moved :: "route \<Rightarrow> rt \<Rightarrow> bool" where
  "moved r s \<longleftrightarrow> m_route s = r \<or> WaitingForTor \<le> m_route s"

interpretation mv: rt_invariant "moved r" for r
  by unfold_locales (auto simp: moved_def same_core_def drop_tx_def)

interpretation rr: rt_invariant "\<lambda>s. m_route s = r" for r
  by unfold_locales (auto simp: same_core_def drop_tx_def)

lemma route_order: "r \<le> r' \<longleftrightarrow> route_rank r \<le> route_rank r'"
  by (simp add: less_eq_route_def)

lemma moved_calls: "keeps (moved r) (call W ans ev)" "keeps (moved r) (callU W ev)"
  by (intro keeps_call keeps_callU; simp add: moved_def)+

lemma moved_settle: "keeps (moved r) (settle_route W ready url proxy error)"
  unfolding settle_route_def
  by (intro keeps mv.base mv.locked keeps_mod) (simp add: moved_def Let_def route_order)

lemma moved_move: "keeps (moved r) (moveToTor W abandon resolved)"
  unfolding moveToTor_def relocate_def goOffline_def quieten_def redial_def dial_tor_def Let_def
  by (intro keeps moved_calls mv.base(1) mv.locked mv.taken mv.sockets mv.helpers moved_settle) simp_all

text \<open>What a tick decides from the route it reads.\<close>

lemma decided: "triple (\<lambda>s. m_route s = r) (tick_decide W synced height now)
    (\<lambda>(route, stuck, askTor, network, bound) s. route = r \<and> (askTor \<longrightarrow> r = Tor) \<and> m_route s = r) (\<lambda>s. m_route s = r)"
  by (rule tripleI) (auto simp: tick_decide_def wp)

lemma tick_tail: "keeps (\<lambda>s. m_route s = r) (bindM (with_state (getM m_state)) (\<lambda>cur.
    if cur = Syncing \<and> synced then setState W Ready [] else if cur = Ready \<and> \<not> synced then setState W Syncing [] else retM ()))"
  by (intro keeps rr.locked rr.helpers)

lemma direct_decided:
  assumes "\<And>stuck network bound. keeps (\<lambda>s. m_route s = Direct) (k (Direct, stuck, False, network, bound))"
  shows "keeps (\<lambda>s. m_route s = Direct) (bindM (tick_decide W synced height now) k)"
  unfolding triple_keeps [symmetric]
proof (rule triple_bind [OF decided])
  fix x :: "route \<times> bool \<times> bool \<times> string \<times> string"
  obtain route stuck askTor network bound where x: "x = (route, stuck, askTor, network, bound)" by (cases x)
  show "triple (case x of (route, stuck, askTor, network, bound) \<Rightarrow> \<lambda>s. route = Direct \<and> (askTor \<longrightarrow> Direct = Tor) \<and> m_route s = Direct)
      (k x) (\<lambda>_ s. m_route s = Direct) (\<lambda>s. m_route s = Direct)"
    using assms unfolding x triple_keeps [symmetric] triple_def by auto
qed

lemma tick_direct: "keeps (\<lambda>s. m_route s = Direct) (tick W)"
  unfolding tick_def
  by (intro keeps_then keeps_bind rr.helpers rr.locked rr.base keeps_get keeps_if keeps_ret keeps_case_option keeps_case_prod
      direct_decided) (simp_all, (intro keeps rr.locked rr.helpers)?)

lemma moved_tick: "keeps (moved r) (tick W)"
  unfolding tick_def by (intro keeps mv.primitives mv.helpers mv.deciding moved_move) simp_all



section \<open>What a move ends with\<close>



end
