(* ===== verification/Null_Safety.thy ===== *)
theory Null_Safety
  imports System
begin

text \<open>
  No null pointer is handed to the engine: every call on a wallet, a pending transaction, a history or
  one of its rows is on a handle the module has checked.
\<close>

fun null_call :: "event \<Rightarrow> bool" where
  "null_call (Wallet w c) \<longleftrightarrow> w = 0"
| "null_call (WalletRead w r) \<longleftrightarrow> w = 0"
| "null_call (PendingTx pt c) \<longleftrightarrow> pt = 0"
| "null_call (TxHistory h c) \<longleftrightarrow> h = 0"
| "null_call (TxInfo t r) \<longleftrightarrow> t = 0"
| "null_call (WM (WM_closeWallet w b)) \<longleftrightarrow> w = 0"
| "null_call _ \<longleftrightarrow> False"

text \<open>None so far, and none in the table of transactions.\<close>

definition sound :: "rt \<Rightarrow> bool" where
  "sound s \<longleftrightarrow> (\<forall>ev\<in>set (hist s). \<not> null_call ev) \<and> (\<forall>k pt. m_pendingTx s k = Some pt \<longrightarrow> pt \<noteq> 0)"

named_theorems nn "programs that make no null call"

lemma nn_call [nn]:
  assumes "\<not> null_call ev"
  shows "keeps sound (call W ans ev)" "keeps sound (callU W ev)" "keeps sound (logM ev)"
  by (intro keeps_call keeps_callU keeps_log; use assms in \<open>simp add: sound_def\<close>)+

lemma nn_mod [nn]: "(\<And>s. hist (f s) = hist s \<and> m_pendingTx (f s) = m_pendingTx s) \<Longrightarrow> keeps sound (modM f)"
  by (rule keeps_mod) (simp add: sound_def)

lemma nn_drop [nn]: "keeps sound (modM (drop_tx h))"
  by (rule keeps_mod) (simp add: sound_def drop_tx_def)

lemma nn_basic [nn]:
  "keeps sound (nowM W)" "keeps sound body \<Longrightarrow> keeps sound (with_lock mu md body)"
  "keeps sound (takeM W p)" "keeps sound (takeJoined W p)" "keeps sound (socketsTo W hp drp)"
  unfolding nowM_def with_lock_def takeM_def takeJoined_def socketsTo_def by (intro keeps nn; simp)+

lemma nn_scopes [nn]:
  "keeps sound busy \<Longrightarrow> keeps sound body \<Longrightarrow> keeps sound (try_shared W busy body)"
  "keeps sound body \<Longrightarrow> keeps sound (with_pause W w body)"
  unfolding try_shared_def with_pause_def by (intro keeps nn; simp)+

lemma nn_helpers [nn]:
  "keeps sound (setState W st e)" "keeps sound (notifyOpen W network opn)" "keeps sound (resetLocksOnce W)"
  "keeps sound sendsWaitForTor" "keeps sound (verifyPassword W pw)" "keeps sound (setWalletsDir dir)"
  unfolding setState_def resetLocksOnce_def notifyOpen_def sendsWaitForTor_def verifyPassword_def setWalletsDir_def
  by (intro keeps nn; simp)+

text \<open>What a phase yields is known to the next.\<close>

lemma nn_yields:
  "keeps sound m \<Longrightarrow> yields P m \<Longrightarrow> (\<And>x. P x \<Longrightarrow> keeps sound (k x)) \<Longrightarrow> keeps sound (bindM m k)"
  unfolding triple_keeps [symmetric, of sound "bindM m k"]
  by (rule triple_bind [OF triple_yields]) (auto simp: triple_keeps [symmetric] triple_def)

section \<open>The operations\<close>

lemma nn_build [nn]: "w \<noteq> 0 \<Longrightarrow> keeps sound (buildTransaction W w dst pid amount priority account)"
  unfolding buildTransaction_def by (intro keeps nn keeps_mod) (simp_all add: sound_def keep_tx_def)

lemma nn_commit [nn]: "w \<noteq> 0 \<Longrightarrow> pt \<noteq> 0 \<Longrightarrow> keeps sound (commitTransaction W w h pt)"
  unfolding commitTransaction_def by (intro keeps nn) simp_all

lemma nn_found [nn]:
  assumes "keeps sound m" "\<And>pt. pt \<noteq> 0 \<Longrightarrow> keeps sound (k pt)"
  shows "keeps sound (bindM (getM (\<lambda>s. m_pendingTx s h)) (\<lambda>it. case it of None \<Rightarrow> m | Some pt \<Rightarrow> k pt))"
  by (rule keeps_bind_get, rule keeps_case_option, rule assms(1), rule assms(2)) (auto simp: sound_def)

lemma nn_sends:
  "keeps sound (doRescan W)" "keeps sound (doCreateTransaction W p)" "keeps sound (doCommit W p)"
  "keeps sound (doDispose W p)" "keeps sound (doChangePassword W p)"
  unfolding doRescan_def doCreateTransaction_def doCommit_def doDispose_def doChangePassword_def
  by (intro nn_found keeps nn; simp)+

lemma nn_close: "keeps sound (doClose W)"
  unfolding doClose_def
proof (rule nn_yields [where P = "\<lambda>r. r \<noteq> Some 0"])
  show "keeps sound (detach_wallet W)"
    unfolding detach_wallet_def by (intro keeps nn keeps_mod) (simp_all add: sound_def)
  show "yields (\<lambda>r. r \<noteq> Some 0) (detach_wallet W)"
    unfolding detach_wallet_def by (intro yields) simp_all
  fix r :: "handle option"
  assume "r \<noteq> Some 0"
  then show "keeps sound (case r of None \<Rightarrow> retM (err ''no wallet open'') | Some w \<Rightarrow> close_detached W w)"
    unfolding close_detached_def by (intro keeps nn; simp)
qed

lemma nn_move: "keeps sound (moveToTor W abandon resolved)"
  unfolding moveToTor_def relocate_def goOffline_def quieten_def redial_def dial_tor_def settle_route_def Let_def
  by (intro keeps nn; simp)

lemma nn_background: "keeps sound (tick W)" "keeps sound (probe W)"
  unfolding tick_def tick_decide_def probe_def Let_def by (intro keeps nn nn_move; simp)+

lemma nn_await: "w \<noteq> 0 \<Longrightarrow> keeps sound (await_loop W w n)"
  by (induction n) (simp_all, (intro keeps nn; simp)+)

lemma nn_open: "keeps sound (doOpenLike W k p)"
proof -
  have plan: "keeps sound (plan_open W p)" and load: "keeps sound (load_wallet W k p pl path nt)" for pl path nt
    unfolding plan_open_def load_wallet_def Let_def by (intro keeps nn; simp)+
  have check: "keeps sound (check_loaded W pl nt w)" "yields (\<lambda>r. r = None \<longrightarrow> w \<noteq> 0) (check_loaded W pl nt w)" for pl nt w
  proof -
    let ?bad = "if w = 0 then retM True else bindM (call W (w_int W) (WalletRead w W_status)) (\<lambda>st. retM (st \<noteq> 0))"
    have y: "yields (\<lambda>bad. \<not> bad \<longrightarrow> w \<noteq> 0) ?bad" by (intro yields) simp_all
    have k: "keeps sound ?bad" by (intro keeps nn) simp_all
    show "keeps sound (check_loaded W pl nt w)"
      unfolding check_loaded_def Let_def by (rule nn_yields [OF k y]) (intro keeps nn; simp)
    show "yields (\<lambda>r. r = None \<longrightarrow> w \<noteq> 0) (check_loaded W pl nt w)"
      unfolding check_loaded_def Let_def by (rule yields_bind_strong [OF y]) (intro yields; simp)
  qed
  have late: "keeps sound (dial_wallet W k pl w)" "keeps sound (await_node W pl w)" "keeps sound (publish_wallet W pl path nt w)"
    if "w \<noteq> 0" for pl path nt w
    unfolding dial_wallet_def await_node_def publish_wallet_def hand_over_def
    by (intro keeps nn nn_await that; simp add: that)+
  have loaded: "keeps sound (or_return (check_loaded W pl nt w) (or_return (dial_wallet W k pl w)
      (or_return (await_node W pl w) (publish_wallet W pl path nt w))))" for pl nt w path
    unfolding or_return_def
    by (rule nn_yields [OF check], intro keeps late) simp_all
  show ?thesis
    unfolding doOpenLike_def Let_def by (intro keeps nn plan load loaded) simp_all
qed

lemma nn_run: "keeps sound (run_job W k p)" "keeps sound (idle W)" "keeps sound (announce W i st)"
  "keeps sound (shutdown_close W)" "keeps sound (onContextReady W dir)"
  unfolding run_job_def dispatch_def idle_def announce_def shutdown_close_def onContextReady_def Let_def
  by (intro keeps nn nn_sends nn_open nn_close nn_background; simp)+

section \<open>The reads\<close>

lemma nn_loops:
  "w \<noteq> 0 \<Longrightarrow> keeps sound (subaddresses_loop W w account js)" "t \<noteq> 0 \<Longrightarrow> keeps sound (destinations_loop W t ds)"
proof -
  show "w \<noteq> 0 \<Longrightarrow> keeps sound (subaddresses_loop W w account js)"
    by (induction js) (simp_all, (intro keeps nn; simp)+)
  show "t \<noteq> 0 \<Longrightarrow> keeps sound (destinations_loop W t ds)"
    by (induction ds) (simp_all, (intro keeps nn; simp)+)
qed

lemma nn_row: "t \<noteq> 0 \<Longrightarrow> keeps sound (history_row W t)"
  unfolding history_row_def by (intro keeps nn nn_loops) simp_all

lemma nn_rows: "h \<noteq> 0 \<Longrightarrow> keeps sound (history_loop W h ds)"
  by (induction ds) (simp_all, (intro keeps nn nn_row; simp)+)

lemma nn_reads:
  "keeps sound (status W)" "keeps sound (balance W a)" "keeps sound (unlockedBalance W a)" "keeps sound (address W acc i)"
  "keeps sound (subaddresses W a)" "keeps sound (createSubaddress W a label)" "keeps sound (setSubaddressLabel W a j label)"
  "keeps sound (history W)" "keeps sound (revealSeed W pw)" "keeps sound (revealViewKey W pw)" "keeps sound (walletExists W name)"
  unfolding status_def balance_def unlockedBalance_def address_def subaddresses_def createSubaddress_def
    setSubaddressLabel_def history_def revealSeed_def revealViewKey_def walletExists_def Let_def
  by (intro keeps nn nn_loops nn_rows; simp)+

lemma nn_methods: "keeps sound (api W c)"
  by (cases c; simp add: as_result_def; intro keeps nn_reads)

lemma sound_kept: "kept_by_all W sound"
  by (simp add: kept_by_all_def kept_by_readers_def nn_methods nn_run nn_background)

text \<open>C14. No null pointer reaches the engine: in every state the module reaches, every call ever made on a wallet, a pending
  transaction, the history or one of its rows was on a handle that is not null, whatever the engine answered before.\<close>

theorem no_null_call:
  assumes "reach W n s" "ev \<in> set (hist (s_rt s))"
  shows "\<not> null_call ev"
proof -
  have "sound (s_rt s)" by (rule reach_kept [OF sound_kept nn_run(4) _ assms(1)]) (simp add: sound_def init_rt_def)
  then show ?thesis using assms(2) by (simp add: sound_def)
qed

lemma no_null_call_witness:
  "\<exists>s. reach tor_world 1 s \<and> hist (s_rt s) \<noteq> [] \<and> \<not> null_call (hd (hist (s_rt s)))"
proof -
  obtain s where s: "reach tor_world 1 s" "m_wallet (s_rt s) = 1" "m_route (s_rt s) = Tor"
    using sample_on_tor by blast
  have "hist (s_rt s) \<noteq> []"
    using reach_secure [OF s(1)] s(2,3) by (auto simp: secure_def through_tor_def)
  then show ?thesis using no_null_call [OF s(1), of "hd (hist (s_rt s))"] s(1) by (intro exI [of _ s]) simp
qed

end
