(* ===== verification/Api_Spec.thy ===== *)
theory Api_Spec
  imports Outcomes Reads Module_Api
begin

text \<open>
  The module's methods as the host sees them: what they answer while the wallet is busy or closed, the
  shape of their results, what they can throw, and the indices and the node module's replies they convert.
\<close>

section \<open>Results\<close>

text \<open>A success carries no error, a failure no value.\<close>

definition result_wf :: "std_result \<Rightarrow> bool" where
  "result_wf r \<longleftrightarrow> (if sr_success r then sr_error r = [] else sr_value r = JNull)"

lemma fromJson_answer: "is_answer j \<Longrightarrow> \<exists>r. fromJson what j = Inr r \<and> result_wf r"
proof -
  assume "is_answer j"
  then obtain a where "j = answer_json a" by (auto simp: is_answer_def)
  then show ?thesis by (cases a) (simp_all add: answer_json_def fromJson_err fromJson_ok result_wf_def)
qed

lemma answers_reads:
  "yields is_answer (createSubaddress W a label)" "yields is_answer (setSubaddressLabel W a i label)"
  "yields is_answer (revealSeed W pw)" "yields is_answer (revealViewKey W pw)"
  unfolding createSubaddress_def setSubaddressLabel_def revealSeed_def revealViewKey_def Let_def
  by (intro yields; simp)+

text \<open>What an operation can throw: what the engine threw, or the end of the process.\<close>

definition from_engine :: "world \<Rightarrow> exn \<Rightarrow> bool" where
  "from_engine W e \<longleftrightarrow> e = Terminated \<or> (\<exists>tr ev. w_throw W tr ev = Some e)"

named_theorems thrown "programs that throw only what the engine threw"

lemma thrown_call [thrown]: "throws (from_engine W) (call W ans ev)" "throws (from_engine W) (callU W ev)"
  by (rule throwsI; auto simp: wp from_engine_def split: option.split)+

lemma thrown_finally [thrown]: "throws (from_engine W) m \<Longrightarrow> throws (from_engine W) (finallyM m d)"
  by (fastforce simp: throws_iff finallyM_def from_engine_def split_beta split: sum.splits if_splits)

lemma thrown_option [thrown]:
  "throws E m \<Longrightarrow> (\<And>y. throws E (k y)) \<Longrightarrow> throws E (case x of None \<Rightarrow> m | Some y \<Rightarrow> k y)"
  by (cases x) simp_all

lemma thrown_when [thrown]: "throws E m \<Longrightarrow> throws E (whenM b m)"
  by (simp add: whenM_def throws_ret)

lemma thrown_scopes [thrown]:
  "throws (from_engine W) body \<Longrightarrow> throws (from_engine W) (with_lock mu md body)"
  "throws (from_engine W) busy \<Longrightarrow> throws (from_engine W) body \<Longrightarrow> throws (from_engine W) (try_shared W busy body)"
  "throws (from_engine W) (takeM W p)" "throws (from_engine W) (takeJoined W p)" "throws (from_engine W) (verifyPassword W pw)"
  unfolding try_shared_def with_lock_def logM_def takeM_def takeJoined_def verifyPassword_def by (intro throws thrown | assumption)+

lemma thrown_loops [thrown]:
  "throws (from_engine W) (subaddresses_loop W w account js)" "throws (from_engine W) (destinations_loop W t ds)"
proof -
  show "throws (from_engine W) (subaddresses_loop W w account js)" by (induction js) (simp_all, (intro throws thrown | simp)+)
  show "throws (from_engine W) (destinations_loop W t ds)" by (induction ds) (simp_all, (intro throws thrown | simp)+)
qed

lemma thrown_row [thrown]: "throws (from_engine W) (history_row W t)"
  unfolding history_row_def by (intro throws thrown)

lemma thrown_rows [thrown]: "throws (from_engine W) (history_loop W h ds)"
  by (induction ds) (simp_all, (intro throws thrown | simp)+)

lemma thrown_reads:
  "throws (from_engine W) (status W)" "throws (from_engine W) (balance W a)" "throws (from_engine W) (unlockedBalance W a)"
  "throws (from_engine W) (address W acc i)" "throws (from_engine W) (subaddresses W a)"
  "throws (from_engine W) (createSubaddress W a label)" "throws (from_engine W) (setSubaddressLabel W a j label)"
  "throws (from_engine W) (history W)" "throws (from_engine W) (revealSeed W pw)" "throws (from_engine W) (revealViewKey W pw)"
  "throws (from_engine W) (walletExists W name)"
  unfolding status_def balance_def unlockedBalance_def address_def subaddresses_def createSubaddress_def
    setSubaddressLabel_def history_def revealSeed_def revealViewKey_def walletExists_def Let_def
  by (intro throws thrown)+

lemma thrown_result:
  assumes "throws (from_engine W) m" "yields is_answer m"
  shows "throws (from_engine W) (as_result W m) \<and> yields (\<lambda>a. \<exists>r. a = LogosResult r \<and> result_wf r) (as_result W m)"
proof -
  have "(\<exists>e. fst (as_result W m s) = Inl e \<and> from_engine W e) \<or> (\<exists>r. fst (as_result W m s) = Inr (LogosResult r) \<and> result_wf r)" for s
  proof -
    obtain x t where m: "m s = (x, t)" by (cases "m s")
    show ?thesis
    proof (cases x)
      case (Inl e)
      with throwsD [OF assms(1), of s e t] m show ?thesis by (simp add: as_result_def runs)
    next
      case (Inr j)
      with yieldsD [OF assms(2), of s j t] m obtain r where "fromJson (w_what W) j = Inr r" "result_wf r"
        using fromJson_answer by blast
      with Inr m show ?thesis by (simp add: as_result_def runs)
    qed
  qed
  then show ?thesis unfolding throws_iff yields_iff by (metis sum.distinct(1) sum.inject)
qed


section \<open>Busy, and closed\<close>

text \<open>A read that cannot have the wallet in time does not wait and does not touch it: the balances and the address are empty, the
  list of subaddresses is, and the status is the one kept, marked busy; nothing is called.\<close>

theorem busy_reads_answer:
  assumes "\<And>tr. w_bool W tr (TryLockShared HandleMu) = False"
  shows "\<exists>h. api W (ApiBalance a) s = (Inr (LogosString []), s\<lparr>hist := TryLockShared HandleMu # hist s\<rparr>) \<and>
    api W (ApiUnlockedBalance a) s = (Inr (LogosString []), s\<lparr>hist := TryLockShared HandleMu # hist s\<rparr>) \<and>
    api W (ApiAddress a i) s = (Inr (LogosString []), s\<lparr>hist := TryLockShared HandleMu # hist s\<rparr>) \<and>
    api W (ApiSubaddresses a) s = (Inr (LogosJson (JArr [])), s\<lparr>hist := TryLockShared HandleMu # hist s\<rparr>) \<and>
    api W ApiStatus s = (Inr (LogosJson h), s\<lparr>hist := [TryLockShared HandleMu, Unlock StateMu, Lock StateMu Exclusive] @ hist s\<rparr>) \<and>
    jfind h ''busy'' = Some (JBool True) \<and> jfind h ''state'' = Some (JStr (stateName (m_state s)))"
proof -
  let ?j = "jset (statusLocked W s) ''connected'' (JBool (m_daemonConnected s))"
  let ?k = "if m_probed s \<and> m_daemonHeight s \<noteq> 0 then jset ?j ''daemonHeight'' (JInt (uint (m_daemonHeight s))) else ?j"
  have st: "statusLocked W (s\<lparr>hist := tr\<rparr>) = statusLocked W s" for tr by (simp add: statusLocked_def)
  have "jfind (jset ?k ''busy'' (JBool True)) ''busy'' = Some (JBool True)"
    "jfind (jset ?k ''busy'' (JBool True)) ''state'' = Some (JStr (stateName (m_state s)))"
    by (simp_all add: statusLocked_def split: if_split)
  then show ?thesis
    using assms by (intro exI [of _ "jset ?k ''busy'' (JBool True)"])
      (simp add: status_def balance_def unlockedBalance_def address_def subaddresses_def try_shared_def runs Let_def st)
qed

lemma busy_reads_answer_witness:
  "fst (api (quiet_world\<lparr>w_bool := \<lambda>_ _. False\<rparr>) (ApiBalance 0) (init_rt\<lparr>m_wallet := 1\<rparr>)) = Inr (LogosString [])"
  using busy_reads_answer [of "quiet_world\<lparr>w_bool := \<lambda>_ _. False\<rparr>" 0 "init_rt\<lparr>m_wallet := 1\<rparr>"] by auto

text \<open>With no wallet open every method says so without calling the engine: zero balances, no address, no subaddresses, no history,
  and "no wallet open" to the methods that need one.\<close>

theorem closed_reads_answer:
  assumes "m_wallet s = 0" "\<And>tr. w_bool W tr (TryLockShared HandleMu) = True"
  shows "fst (api W (ApiBalance a) s) = Inr (LogosString ''0'') \<and> fst (api W (ApiUnlockedBalance a) s) = Inr (LogosString ''0'') \<and>
    fst (api W (ApiAddress a i) s) = Inr (LogosString []) \<and> fst (api W (ApiSubaddresses a) s) = Inr (LogosJson (JArr [])) \<and>
    fst (api W ApiHistory s) = Inr (LogosJson (JArr [])) \<and>
    (\<forall>m\<in>{ApiCreateSubaddress a l, ApiSetSubaddressLabel a i l, ApiRevealSeed l, ApiRevealViewKey l}.
       fst (api W m s) = Inr (LogosResult \<lparr>sr_success = False, sr_value = JNull, sr_error = ''no wallet open''\<rparr>))"
  using assms by (simp add: balance_def unlockedBalance_def address_def subaddresses_def history_def createSubaddress_def
      setSubaddressLabel_def revealSeed_def revealViewKey_def as_result_def try_shared_def runs fromJson_err)

lemma closed_reads_answer_witness:
  "fst (api quiet_world (ApiRevealSeed ''pw'') init_rt) = Inr (LogosResult \<lparr>sr_success = False, sr_value = JNull, sr_error = ''no wallet open''\<rparr>)"
  using closed_reads_answer [of init_rt quiet_world] by (simp add: init_rt_def quiet_world_def)

section \<open>Indices\<close>

text \<open>An account or subaddress number is read as itself only below \<open>2 ^ 32\<close>: a negative one reads as 0, and from there on the
  number is taken modulo \<open>2 ^ 32\<close>, so that an account that does not exist answers as another one that does.\<close>

theorem index32_value:
  "uint (index32 a) = (if sint a < 0 then 0 else sint a mod 2 ^ 32) \<and> uint (index64 a) = (if sint a < 0 then 0 else sint a) \<and>
   index32 (word_of_int (2 ^ 32)) = 0"
proof -
  have "uint a = sint a" if "\<not> sint a < 0"
    using that sint_less [of a] by (simp add: uint_sint take_bit_eq_mod)
  then show ?thesis
    by (simp add: index32_def index64_def unsigned_ucast_eq take_bit_eq_mod)
qed

section \<open>The node module's reply\<close>

text \<open>Whatever the node module replies, or fails to, opening gets a node or an error: a reply that cannot be parsed, a call that
  throws and one that says it failed all become a node with an error, which every opening refuses; only an exception that is
  no \<^verbatim>\<open>std::exception\<close> gets through.\<close>

theorem resolve_answers:
  "case resolve what parse reply of
     Inl e \<Rightarrow> e = UnknownException \<or> e = Terminated
   | Inr node \<Rightarrow> (case resolve_body what parse reply of
       Inl e \<Rightarrow> \<exists>w. e = StdException w \<and> node = JObj [(''error'', JStr (''node module unreachable: '' @ w))]
     | Inr node' \<Rightarrow> node = node' \<and> (case reply of Inl e \<Rightarrow> False | Inr raw \<Rightarrow> (case parse raw of Inl e \<Rightarrow> False | Inr j \<Rightarrow>
         value_bool what j ''ok'' False = Inr True \<and> value_json what j ''result'' (JObj []) = Inr node \<or>
         value_bool what j ''ok'' False = Inr False \<and> contains node ''error'')))"
  by (auto simp: resolve_def resolve_body_def node_error_def contains_def split: sum.splits exn.splits if_splits)

end
