(* ===== verification/Divergences.thy ===== *)
theory Divergences
  imports Open_Spec
begin

text \<open>
  Behaviours of the code that its comments and its intent do not suggest, each shown on an input: what a
  team would decide about before relying on the properties of the other theories.
\<close>

text \<open>A header need not be the shortest encoding of its tag: \<^verbatim>\<open>92 00\<close> reads as 18, the tag of a standard address.\<close>

lemma padded_header_accepted: "readVarint [0x92, 0x00] = Some (18, 2)"
  by code_simp

text \<open>The loopback test looks for a substring, so a host whose name contains a loopback address passes it.\<close>

lemma foreign_host_is_loopback: "isLoopback ''http://127.0.0.1.example.org:18081'' = True \<and> isLoopback ''http://node.example.org/?localhost'' = True"
  by code_simp

text \<open>An exception of the engine after the state was set to "opening" fails the job and leaves that state.\<close>

definition failing_world :: world where
  "failing_world = tor_world\<lparr>w_throw := (\<lambda>_ ev. case ev of
     WM c \<Rightarrow> (case c of WM_openWallet p pw n \<Rightarrow> Some (StdException ''disk'') | _ \<Rightarrow> None)
   | Wallet w c \<Rightarrow> (case c of W_store p \<Rightarrow> Some (StdException ''disk'') | _ \<Rightarrow> None)
   | _ \<Rightarrow> None)\<rparr>"

lemma failing_world_simps:
  "w_throw failing_world tr (WM (WM_openWallet p pw n)) = Some (StdException ''disk'')"
  "w_throw failing_world tr (WM (WM_walletExists p)) = None" "w_throw failing_world tr (WM (WM_setDaemonAddress p)) = None"
  "w_throw failing_world tr (Wallet w (W_store p)) = Some (StdException ''disk'')"
  "w_throw failing_world tr (Wallet w W_pauseRefresh) = None" "w_throw failing_world tr (Wallet w W_startRefresh) = None"
  "w_throw failing_world tr (Resolve n') = None" "w_throw failing_world tr (Emit e j) = None"
  "w_throw failing_world tr (PendingTx pt c) = None" "w_throw failing_world tr (MONERO_free f) = None"
  "w_json failing_world tr ev = tor_node" "w_bool failing_world tr (WM c') = True" "w_bool failing_world tr (PendingTx pt c) = True"
  "w_str failing_world tr ev = Some []"
  by (simp_all add: failing_world_def tor_world_def spending_world_def quiet_world_def)

lemma failed_open_leaves_opening:
  assumes "m_wallet s = 0" "m_locksReset s"
  shows "\<exists>t. run_job failing_world ''open_wallet'' open_params s = (Inr (err ''exception: disk''), t) \<and> m_state t = Opening \<and> m_wallet t = 0"
  by (simp add: run_job_def dispatch_def resetLocksOnce_def doOpenLike_def plan_open_def load_wallet_def setState_def
      catchM_def runs assms sample_open failing_world_simps Let_def)

text \<open>A store that throws after the engine has sent a transaction fails the job, though the money has moved.\<close>

lemma sent_but_failed:
  assumes "m_wallet s = 7" "m_route s = Direct" "m_pendingTx s = [''h'' \<mapsto> 9]" "m_locksReset s" "hist s = []"
  shows "\<exists>t. run_job failing_world ''commit_transaction'' (JObj [(''txHandle'', JStr ''h'')]) s = (Inr (err ''exception: disk''), t) \<and>
    tx_calls (hist t) = [(9, PT_commit [] False), (9, PT_txid '','')] \<and> m_pendingTx t ''h'' = None"
proof -
  have h: "value_str w (JObj [(''txHandle'', JStr ''h'')]) ''txHandle'' [] = Inr ''h''" for w by (simp add: value_simps)
  have c: "c_str [] = []" by code_simp
  show ?thesis
    using assms by (simp add: run_job_def dispatch_def resetLocksOnce_def doCommit_def commitTransaction_def catchM_def runs
        sendsWaitForTor_def h c failing_world_simps drop_tx_def tx_calls_def)
qed

text \<open>
  Between the two blocks of the hand-over the new handle is out and the wallet's name is not written: a secret asked for
  then is checked against the keys file of no name, so an engine that finds no such file refuses the right password.
\<close>

lemma reveal_before_named:
  assumes "w \<noteq> 0" "m_walletName s = []"
    and "\<And>tr ev. w_throw W tr ev = None"
    and "\<And>tr. \<not> w_bool W tr (WM (WM_verifyWalletPassword (c_str (walletPath s [] @ ''.keys'')) (c_str pw) False 1))"
  defines "u \<equiv> snd (with_lock HandleMu Exclusive (modM (\<lambda>s. s\<lparr>m_wallet := w\<rparr>)) s)"
  shows "\<exists>t. revealSeed W pw u = (Inr (err ''wrong password''), t)" "\<exists>t. revealViewKey W pw u = (Inr (err ''wrong password''), t)"
  using assms(1,2) assms(4) [unfolded walletPath_def]
  by (simp_all add: u_def revealSeed_def revealViewKey_def verifyPassword_def runs assms(3) walletPath_def)

end
