(* ===== verification/Open_Outcome.thy ===== *)
theory Open_Outcome
  imports System
begin

text \<open>
  What an opening leaves behind: with an answer of success the wallet is the one loaded, handed over with its
  name, network and address; with an answer of failure nothing is open that was not before, in the module or in
  the engine.
\<close>

section \<open>The wallets the engine has open for the module\<close>

fun loads :: "event \<Rightarrow> bool" where
  "loads (WM (WM_openWallet path pw net)) = True"
| "loads (WM (WM_createWallet path pw lang net)) = True"
| "loads (WM (WM_recoveryWallet path pw seed net height rounds off)) = True"
| "loads (WM (WM_createWalletFromKeys path pw lang net height a v k rounds)) = True"
| "loads _ = False"

fun closes :: "event \<Rightarrow> handle set" where
  "closes (WM (WM_closeWallet w store)) = {w}"
| "closes _ = {}"

text \<open>The handles a history loaded and has not asked to close since.\<close>

primrec open_in :: "world \<Rightarrow> trace \<Rightarrow> handle set" where
  "open_in W [] = {}"
| "open_in W (ev # tr) =
     (if loads ev \<and> w_throw W tr ev = None then insert (w_handle W tr ev) (open_in W tr) - {0}
      else open_in W tr - closes ev)"

lemma zero_closed: "0 \<notin> open_in W h"
  by (induction h) auto

lemma quiet_open: "\<not> loads ev \<Longrightarrow> closes ev = {} \<Longrightarrow> open_in W (ev # h) = open_in W h"
  by simp

section \<open>Phases\<close>

text \<open>
  Until the wallet is handed over only the state, its error and the history change; the engine has the handles in
  \<open>L\<close> open for the module, and none beyond \<open>U\<close>.
\<close>

definition unshared :: "world \<Rightarrow> rt \<Rightarrow> handle set \<Rightarrow> handle set \<Rightarrow> rt \<Rightarrow> bool" where
  "unshared W s L U t \<longleftrightarrow> t\<lparr>m_state := m_state s, m_lastError := m_lastError s, hist := hist s\<rparr> = s \<and>
     L \<subseteq> open_in W (hist t) \<and> open_in W (hist t) \<subseteq> U"

definition refused :: "world \<Rightarrow> rt \<Rightarrow> json \<Rightarrow> rt \<Rightarrow> bool" where
  "refused W s j t \<longleftrightarrow> (\<exists>e. j = err e) \<and> unshared W s {} (open_in W (hist s)) t \<and> m_state t = NoWallet"

text \<open>From here on an exception ends the job, and nothing is claimed of it.\<close>

abbreviation leads :: "(rt \<Rightarrow> bool) \<Rightarrow> 'a run \<Rightarrow> ('a \<Rightarrow> rt \<Rightarrow> bool) \<Rightarrow> bool" where
  "leads P m Q \<equiv> triple P m Q (\<lambda>_. True)"

lemma leads_keeps: "keeps I m \<Longrightarrow> leads I m (\<lambda>_. I)"
  by (rule triple_conseq [of I m "\<lambda>_. I" I]) (simp_all add: triple_keeps)

lemma leads_pass:
  "keeps P m \<Longrightarrow> (\<And>x. leads P (k x) Q) \<Longrightarrow> leads P (bindM m k) Q"
  "keeps P m \<Longrightarrow> leads P n Q \<Longrightarrow> leads P (thenM m n) Q"
  by (rule triple_bind [OF leads_keeps] triple_then [OF leads_keeps]; assumption)+

lemma leads_or_return:
  assumes "leads P m (\<lambda>r t. case r of Some j \<Rightarrow> R j t | None \<Rightarrow> Q t)" "leads Q k S" "\<And>j t. R j t \<Longrightarrow> S j t"
  shows "leads P (or_return m k) S"
  unfolding or_return_def
proof (rule triple_bind [OF assms(1)])
  fix r :: "json option"
  show "leads (\<lambda>t. case r of Some j \<Rightarrow> R j t | None \<Rightarrow> Q t) (case r of Some j \<Rightarrow> retM j | None \<Rightarrow> k) S"
    by (cases r) (auto intro: triple_ret assms(2,3))
qed

named_theorems oc "what leaves the wallets open as they are"

lemma unshared_event:
  "unshared W s L U t \<Longrightarrow> \<not> loads ev \<Longrightarrow> closes ev = {} \<Longrightarrow> unshared W s L U (t\<lparr>hist := ev # hist t\<rparr>)"
  by (simp add: unshared_def)

lemma unshared_calls [oc]:
  assumes "\<not> loads ev" "closes ev = {}"
  shows "keeps (unshared W s L U) (call W ans ev)" "keeps (unshared W s L U) (callU W ev)" "keeps (unshared W s L U) (logM ev)"
  by (intro keeps_call keeps_callU keeps_log; rule unshared_event; use assms in simp)+

lemma unshared_taken [oc]: "keeps (unshared W s L U) (takeM W p)"
  unfolding takeM_def by (intro keeps oc) simp_all

lemma unshared_locked [oc]: "keeps (unshared W s L U) body \<Longrightarrow> keeps (unshared W s L U) (with_lock mu md body)"
  unfolding with_lock_def by (intro keeps oc) simp_all

lemma unshared_state [oc]: "keeps (unshared W s L U) (setState W st e)"
  unfolding setState_def by (intro keeps oc keeps_mod) (simp_all add: unshared_def)

lemma unshared_plan [oc]: "keeps (unshared W s L U) (plan_open W p)"
  unfolding plan_open_def by (intro keeps oc) simp_all

text \<open>Loading adds the handle it returns, closing takes it back.\<close>

lemma leads_load_call:
  assumes "loads ev"
  shows "leads (unshared W s {} U) (call W (w_handle W) ev) (\<lambda>w. unshared W s ({w} - {0}) (insert w U - {0}))"
proof (rule tripleI)
  fix t assume "unshared W s {} U t"
  then show "wp (call W (w_handle W) ev) (\<lambda>r t. case r of Inl e \<Rightarrow> e = Terminated \<or> True
      | Inr w \<Rightarrow> unshared W s ({w} - {0}) (insert w U - {0}) t) t"
    using assms zero_closed [of W "hist t"] by (auto simp: wp unshared_def split: option.split)
qed

lemma leads_close_call:
  "leads (unshared W s L U) (bindM (call W (w_bool W) (WM (WM_closeWallet w b))) (\<lambda>_. retM ())) (\<lambda>_. unshared W s (L - {w}) (U - {w}))"
  by (rule tripleI) (auto simp: wp unshared_def split: option.split)

text \<open>Every refusal ends with the state reset and the error answered.\<close>

lemma leads_refuse:
  assumes "U \<subseteq> open_in W (hist s)"
  shows "leads (unshared W s L U) (thenM (setState W NoWallet e) (retM x)) (\<lambda>r t. r = x \<and> unshared W s {} (open_in W (hist s)) t \<and> m_state t = NoWallet)"
  using assms by (intro tripleI) (auto simp: wp setState_def unshared_def split: option.split)

lemma leads_load:
  "leads (unshared W s {} (open_in W (hist s))) (load_wallet W k p pl path nettype)
     (\<lambda>r t. case r of Inl j \<Rightarrow> refused W s j t | Inr w \<Rightarrow> unshared W s ({w} - {0}) (insert w (open_in W (hist s)) - {0}) t)"
    (is "leads ?P _ ?Q")
proof -
  have refuse: "leads ?P (thenM (setState W NoWallet []) (retM (Inl (err e)))) ?Q" for e
    by (rule triple_conseq [OF leads_refuse [of _ W s "{}" "[]" "Inl (err e)"]]) (auto simp: refused_def)
  have got: "leads ?P (bindM (call W (w_handle W) ev) (\<lambda>w. retM (Inr w))) ?Q" if "loads ev" for ev
    by (rule triple_bind [OF leads_load_call [OF that]], rule triple_ret) simp
  have lift: "leads ?P (bindM (liftM r) f) ?Q" if "\<And>x. leads ?P (f x) ?Q" for r :: "exn + 'x" and f
    by (rule triple_bind [OF triple_lift that]) auto
  show ?thesis
    unfolding load_wallet_def Let_def
    by (rule triple_bind [OF leads_keeps], rule unshared_calls, simp, simp, rule triple_if, rule triple_if, rule refuse,
        rule got, simp, rule triple_if, rule refuse, rule triple_if, rule lift, rule got, simp, rule triple_if, rule lift, rule lift,
        rule lift, rule got, simp, rule lift, rule lift, rule lift, rule lift, rule got, simp)
qed

text \<open>A failure after the load closes what was loaded; success goes on with it.\<close>

abbreviation loaded :: "world \<Rightarrow> rt \<Rightarrow> handle \<Rightarrow> rt \<Rightarrow> bool" where
  "loaded W s w \<equiv> unshared W s {w} (insert w (open_in W (hist s)))"

abbreviation goes_on :: "world \<Rightarrow> rt \<Rightarrow> handle \<Rightarrow> json option \<Rightarrow> rt \<Rightarrow> bool" where
  "goes_on W s w \<equiv> (\<lambda>r t. case r of Some j \<Rightarrow> refused W s j t | None \<Rightarrow> loaded W s w t)"

lemma unshared_mono: "unshared W s L U t \<Longrightarrow> L' \<subseteq> L \<Longrightarrow> U \<subseteq> U' \<Longrightarrow> unshared W s L' U' t"
  by (auto simp: unshared_def)

lemma leads_close_refuse:
  assumes "U - {w} \<subseteq> open_in W (hist s)" "\<And>t. unshared W s {} (open_in W (hist s)) t \<Longrightarrow> m_state t = NoWallet \<Longrightarrow> Q x t"
  shows "leads (unshared W s L U) (thenM (bindM (call W (w_bool W) (WM (WM_closeWallet w b))) (\<lambda>_. retM ()))
    (thenM (setState W NoWallet e) (retM x))) Q"
  by (rule triple_then [OF leads_close_call], rule triple_conseq [OF leads_refuse]) (use assms in auto)

lemma leads_check:
  "leads (unshared W s ({w} - {0}) (insert w (open_in W (hist s)) - {0})) (check_loaded W pl nettype w)
     (\<lambda>r t. (case r of Some j \<Rightarrow> refused W s j t | None \<Rightarrow> w \<noteq> 0 \<and> loaded W s w t))"
    (is "leads ?P _ ?Q")
proof -
  let ?bad = "if w = 0 then retM True else bindM (call W (w_int W) (WalletRead w W_status)) (\<lambda>st. retM (st \<noteq> 0))"
  have bad: "leads ?P ?bad (\<lambda>bad t. ?P t \<and> (\<not> bad \<longrightarrow> w \<noteq> 0))"
    by (rule triple_if, rule triple_ret, simp, rule triple_bind [OF leads_keeps], rule oc, simp, simp, rule triple_ret) simp
  have err: "leads ?P (if w \<noteq> 0 then take_call W (WalletRead w W_errorString) else take_call W (WM WM_errorString)) (\<lambda>_. ?P)"
    by (intro leads_keeps keeps oc) simp_all
  have U: "insert w (open_in W (hist s)) - {0} - {w} \<subseteq> open_in W (hist s)" by blast
  have closing: "leads ?P (thenM (whenM (w \<noteq> 0) (bindM (call W (w_bool W) (WM (WM_closeWallet w False))) (\<lambda>_. retM ())))
      (thenM (setState W NoWallet e') (retM (Some (err e'))))) ?Q" for e'
  proof (cases "w = 0")
    case True
    then have U0: "insert w (open_in W (hist s)) - {0} \<subseteq> open_in W (hist s)" by blast
    have "keeps (unshared W s L V) (whenM (w \<noteq> 0) m)" for L V m using True by (simp add: whenM_def keeps)
    then show ?thesis
      by (rule leads_pass) (rule triple_conseq [OF leads_refuse [OF U0]], auto simp: refused_def)
  next
    case False
    then have now: "whenM (w \<noteq> 0) m = m" for m :: "unit run" by (simp add: whenM_def)
    show ?thesis unfolding now by (rule leads_close_refuse [OF U]) (auto simp: refused_def)
  qed
  have net: "leads ?P (bindM (call W (w_int W) (WalletRead w W_nettype)) (\<lambda>nt.
      if nt \<noteq> nettype then thenM (bindM (call W (w_bool W) (WM (WM_closeWallet w False))) (\<lambda>_. retM ()))
        (thenM (setState W NoWallet e) (retM (Some (err e)))) else retM None)) ?Q" if "w \<noteq> 0" for e
    by (rule leads_pass, (intro oc; simp), rule triple_if, rule leads_close_refuse [OF U], fastforce simp: refused_def, rule triple_ret)
      (use that unshared_mono in auto)
  show ?thesis
    unfolding check_loaded_def Let_def
  proof (rule triple_bind [OF bad], rule triple_if)
    fix b
    show "leads (\<lambda>t. ?P t \<and> (\<not> b \<longrightarrow> w \<noteq> 0)) (bindM (if w \<noteq> 0 then take_call W (WalletRead w W_errorString) else take_call W (WM WM_errorString)) (\<lambda>e.
        thenM (whenM (w \<noteq> 0) (bindM (call W (w_bool W) (WM (WM_closeWallet w False))) (\<lambda>_. retM ())))
        (thenM (setState W NoWallet (if e = [] then ''open failed'' else e)) (retM (Some (err (if e = [] then ''open failed'' else e))))))) ?Q"
      by (rule triple_conseq [OF triple_bind [OF err closing]]) simp_all
  next
    fix b
    assume "\<not> b"
    then show "leads (\<lambda>t. ?P t \<and> (\<not> b \<longrightarrow> w \<noteq> 0)) (bindM (call W (w_int W) (WalletRead w W_nettype)) (\<lambda>nt.
        if nt \<noteq> nettype then thenM (bindM (call W (w_bool W) (WM (WM_closeWallet w False))) (\<lambda>_. retM ()))
          (thenM (setState W NoWallet (''wallet network does not match selected '' @ op_network pl @ ''; select the wallet's network and try again''))
            (retM (Some (err (''wallet network does not match selected '' @ op_network pl @ ''; select the wallet's network and try again'')))))
        else retM None)) ?Q"
      by (intro triple_facts [where b = "w \<noteq> 0", OF _ triple_conseq [OF net]]) (auto simp: insert_Diff_if)
  qed
qed

lemma leads_dial: "leads (loaded W s w) (dial_wallet W k pl w) (goes_on W s w)"
  unfolding dial_wallet_def
proof (rule leads_pass, (intro keeps oc; simp), rule leads_pass, (intro oc; simp), rule triple_if)
  show "leads (loaded W s w) (bindM (take_call W (WalletRead w W_errorString)) (\<lambda>e.
      thenM (bindM (call W (w_bool W) (WM (WM_closeWallet w (k \<noteq> ''open_wallet'')))) (\<lambda>_. retM ()))
      (thenM (setState W NoWallet e) (retM (Some (err (''init failed: '' @ e))))))) (goes_on W s w)"
    by (rule leads_pass, (intro keeps oc; simp), rule leads_close_refuse) (auto simp: refused_def)
  show "leads (loaded W s w) (thenM (whenM (op_route pl = WaitingForTor) (callU W (Wallet w (W_setOffline True))))
      (bindM (if op_route pl = Direct then liftM (value_bool (w_what W) (op_node pl) ''trusted'' False) else retM False) (\<lambda>trusted.
        thenM (callU W (Wallet w (W_setTrustedDaemon (op_route pl = Direct \<and> trusted \<and> isLoopback (op_url pl)))))
          (retM None)))) (goes_on W s w)"
    by (rule leads_pass, (intro keeps oc; simp), rule leads_pass, intro keeps, rule leads_pass, (intro oc; simp), rule triple_ret) simp
qed

lemma unshared_await: "keeps (unshared W s L U) (await_loop W w n)"
  by (induction n) (simp_all, (intro keeps oc; simp)+)

lemma leads_await: "leads (loaded W s w) (await_node W pl w) (goes_on W s w)"
  unfolding await_node_def
  by (rule triple_if, rule leads_pass [OF unshared_await], rule triple_if, rule leads_close_refuse) (auto simp: refused_def intro: triple_ret)

section \<open>The hand-over\<close>

text \<open>The wallet in the module's hands, with what it is known by.\<close>

definition handed :: "world \<Rightarrow> rt \<Rightarrow> open_plan \<Rightarrow> string \<Rightarrow> handle \<Rightarrow> rt \<Rightarrow> bool" where
  "handed W s pl addr w t \<longleftrightarrow> m_wallet t = w \<and> m_walletName t = op_name pl \<and> m_network t = op_network pl \<and>
     m_primaryAddress t = addr \<and> m_route t = op_route pl \<and> m_lastError t = [] \<and> m_pendingTx t = m_pendingTx s \<and>
     w \<in> open_in W (hist t) \<and> open_in W (hist t) \<subseteq> insert w (open_in W (hist s))"

lemma handed_calls [oc]:
  assumes "\<not> loads ev" "closes ev = {}"
  shows "keeps (handed W s pl a w) (call W ans ev)" "keeps (handed W s pl a w) (callU W ev)" "keeps (handed W s pl a w) (logM ev)"
  by (intro keeps_call keeps_callU keeps_log; use assms in \<open>simp add: handed_def\<close>)+

lemma handed_notify [oc]: "keeps (handed W s pl a w) (notifyOpen W network opn)"
  unfolding notifyOpen_def by (intro keeps oc) simp_all

definition opened :: "world \<Rightarrow> rt \<Rightarrow> open_plan \<Rightarrow> handle \<Rightarrow> json \<Rightarrow> rt \<Rightarrow> bool" where
  "opened W s pl w j t \<longleftrightarrow> (\<exists>addr watchOnly. handed W s pl addr w t \<and> m_state t = Syncing \<and>
     j = ok_result (JObj [(''name'', JStr (op_name pl)), (''network'', JStr (op_network pl)),
           (''address'', JStr addr), (''watchOnly'', JBool watchOnly)]))"

lemma leads_publish: "leads (loaded W s w) (publish_wallet W pl path nettype w) (opened W s pl w)"
proof -
  have over: "leads (loaded W s w) (hand_over W pl addr nettype w) (\<lambda>_. handed W s pl addr w)" for addr
  proof (rule tripleI)
    fix t assume t: "loaded W s w t"
    then have "m_pendingTx t = m_pendingTx s" by (auto simp: unshared_def dest: arg_cong [where f = m_pendingTx])
    with t show "wp (hand_over W pl addr nettype w) (\<lambda>r t. case r of Inl e \<Rightarrow> e = Terminated \<or> True | Inr x \<Rightarrow> handed W s pl addr w t) t"
      by (simp add: hand_over_def wp handed_def unshared_def)
  qed
  have state: "leads (handed W s pl addr w) (setState W Syncing []) (\<lambda>_ t. handed W s pl addr w t \<and> m_state t = Syncing)" for addr
    by (rule tripleI) (auto simp: wp setState_def handed_def split: option.split)
  have view: "leads (\<lambda>t. handed W s pl addr w t \<and> m_state t = Syncing) (call W (w_bool W) (WalletRead w W_watchOnly))
      (\<lambda>_ t. handed W s pl addr w t \<and> m_state t = Syncing)" for addr
    by (rule tripleI) (auto simp: wp handed_def split: option.split)
  have files: "leads (handed W s pl addr w) (thenM (logM NotifyProbe) (thenM (notifyOpen W (op_network pl) True)
       (thenM (forM [path, path @ ''.keys'', path @ ''.address.txt''] (\<lambda>f.
           bindM (call W (w_bool W) (FsExists f)) (\<lambda>there. whenM there (callU W (FsPermissions f))))) m))) Q"
    if "leads (handed W s pl addr w) m Q" for addr m Q
    by (rule leads_pass, (intro oc; simp), rule leads_pass, intro oc, rule leads_pass, (intro keeps oc; simp), rule that)
  show ?thesis
    unfolding publish_wallet_def
    by (rule leads_pass, (intro oc; simp), rule leads_pass, (intro keeps oc; simp), rule leads_pass, (intro keeps oc; simp),
        rule triple_then [OF over], rule files, rule triple_then [OF state], rule triple_bind [OF view], rule triple_ret)
      (auto simp: opened_def)
qed

section \<open>The opening\<close>

lemma leads_loaded:
  "leads (unshared W s {} (open_in W (hist s))) (bindM (load_wallet W k p pl path nettype) (\<lambda>r. case r of
       Inl j \<Rightarrow> retM j
     | Inr w \<Rightarrow> or_return (check_loaded W pl nettype w) (or_return (dial_wallet W k pl w)
         (or_return (await_node W pl w) (publish_wallet W pl path nettype w)))))
     (\<lambda>j t. refused W s j t \<or> (\<exists>w. w \<noteq> 0 \<and> opened W s pl w j t))"
    (is "leads _ _ ?Q")
proof (rule triple_bind [OF leads_load])
  fix r :: "json + handle"
  have rest: "leads (\<lambda>t. w \<noteq> 0 \<and> loaded W s w t) (or_return (dial_wallet W k pl w) (or_return (await_node W pl w) (publish_wallet W pl path nettype w))) ?Q" for w
  proof (rule triple_facts [where b = "w \<noteq> 0"], simp)
    assume w: "w \<noteq> 0"
    have "leads (loaded W s w) (publish_wallet W pl path nettype w) ?Q"
      by (rule triple_conseq [OF leads_publish]) (use w in auto)
    then have "leads (loaded W s w) (or_return (dial_wallet W k pl w) (or_return (await_node W pl w) (publish_wallet W pl path nettype w))) ?Q"
      by (intro leads_or_return [where R = "refused W s", OF leads_dial] leads_or_return [where R = "refused W s", OF leads_await]) auto
    then show "leads (\<lambda>t. w \<noteq> 0 \<and> loaded W s w t) (or_return (dial_wallet W k pl w) (or_return (await_node W pl w) (publish_wallet W pl path nettype w))) ?Q"
      by (rule triple_conseq) auto
  qed
  show "leads (\<lambda>t. case r of Inl j \<Rightarrow> refused W s j t | Inr w \<Rightarrow> unshared W s ({w} - {0}) (insert w (open_in W (hist s)) - {0}) t)
    (case r of Inl j \<Rightarrow> retM j
     | Inr w \<Rightarrow> or_return (check_loaded W pl nettype w) (or_return (dial_wallet W k pl w)
         (or_return (await_node W pl w) (publish_wallet W pl path nettype w)))) ?Q"
  proof (cases r)
    case (Inr w)
    show ?thesis
      unfolding Inr sum.case by (rule leads_or_return [where R = "refused W s", OF leads_check rest]) auto
  qed (auto intro: triple_ret)
qed

text \<open>Before the wallet is loaded nothing has changed but the history.\<close>

definition resting :: "world \<Rightarrow> rt \<Rightarrow> rt \<Rightarrow> bool" where
  "resting W s t \<longleftrightarrow> unshared W s {} (open_in W (hist s)) t \<and> m_state t = m_state s"

lemma resting_calls:
  assumes "\<not> loads ev" "closes ev = {}"
  shows "keeps (resting W s) (call W ans ev)" "keeps (resting W s) (logM ev)"
  by (intro keeps_call keeps_log; use assms in \<open>simp add: resting_def unshared_event\<close>)+

lemma resting_plan: "keeps (resting W s) (plan_open W p)"
  unfolding plan_open_def by (intro keeps resting_calls) simp_all

text \<open>The plan is a refusal, or for the wallet and the network asked for.\<close>

definition plan_for :: "what \<Rightarrow> json \<Rightarrow> json + open_plan \<Rightarrow> bool" where
  "plan_for what p r \<longleftrightarrow> (case r of Inl j \<Rightarrow> \<exists>e. j = err e
     | Inr pl \<Rightarrow> value_str what p ''name'' [] = Inr (op_name pl) \<and> value_str what p ''network'' [] = Inr (op_network pl))"

lemma plan_planned: "yields (plan_for (w_what W) p) (plan_open W p)"
proof -
  have lift: "yields (\<lambda>x. r = Inr x) (liftM r)" for r :: "exn + string"
    by (simp add: yields_def wp)
  show ?thesis
    unfolding plan_open_def
    by (rule yields_bind_strong [OF lift], rule yields_bind, rule yields_bind_strong [OF lift]) (intro yields; auto simp: plan_for_def)
qed

definition open_end :: "world \<Rightarrow> json \<Rightarrow> rt \<Rightarrow> json \<Rightarrow> rt \<Rightarrow> bool" where
  "open_end W p s j t \<longleftrightarrow> (\<exists>e. j = err e) \<and> unshared W s {} (open_in W (hist s)) t \<and> (m_state t = m_state s \<or> m_state t = NoWallet) \<or>
     m_wallet s = 0 \<and> (\<exists>pl w. w \<noteq> 0 \<and> plan_for (w_what W) p (Inr pl) \<and> opened W s pl w j t)"

lemma leads_open: "leads (resting W s) (doOpenLike W k p) (open_end W p s)"
  unfolding doOpenLike_def Let_def
proof (rule triple_bind [OF triple_conseq [OF triple_yields [OF resting_plan plan_planned]]], assumption, assumption, simp)
  fix r :: "json + open_plan"
  have already: "leads (resting W s) (with_lock HandleMu Exclusive (getM (\<lambda>s. m_wallet s \<noteq> 0)))
      (\<lambda>b t. resting W s t \<and> (b \<longleftrightarrow> m_wallet s \<noteq> 0))"
    by (rule tripleI) (auto simp: wp resting_def unshared_def dest: arg_cong [where f = m_wallet])
  have load: "leads (resting W s) (thenM (setState W Opening []) (bindM (getM (\<lambda>s. walletPath s (op_name pl))) (\<lambda>path.
      thenM (callU W (WM (WM_setDaemonAddress (c_str (hostPort (op_dialUrl pl))))))
      (bindM (load_wallet W k p pl path (nettypeOf (op_network pl))) (\<lambda>r. case r of
          Inl j \<Rightarrow> retM j
        | Inr w \<Rightarrow> or_return (check_loaded W pl (nettypeOf (op_network pl)) w) (or_return (dial_wallet W k pl w)
            (or_return (await_node W pl w) (publish_wallet W pl path (nettypeOf (op_network pl)) w))))))))
      (\<lambda>j t. refused W s j t \<or> (\<exists>w. w \<noteq> 0 \<and> opened W s pl w j t))" for pl
    by (rule triple_conseq [where P' = "unshared W s {} (open_in W (hist s))"], rule leads_pass, rule oc, rule leads_pass, rule keeps_get,
        rule leads_pass, (intro oc; simp), rule leads_loaded) (simp_all add: resting_def)
  show "leads (\<lambda>t. plan_for (w_what W) p r \<and> resting W s t) (case r of Inl j \<Rightarrow> retM j
      | Inr pl \<Rightarrow> bindM (with_lock HandleMu Exclusive (getM (\<lambda>s. m_wallet s \<noteq> 0))) (\<lambda>already.
             if already then retM (err ''a wallet is already open; close it first'')
             else thenM (setState W Opening [])
               (bindM (getM (\<lambda>s. walletPath s (op_name pl))) (\<lambda>path.
                thenM (callU W (WM (WM_setDaemonAddress (c_str (hostPort (op_dialUrl pl))))))
                (bindM (load_wallet W k p pl path (nettypeOf (op_network pl))) (\<lambda>r. case r of
                    Inl j \<Rightarrow> retM j
                  | Inr w \<Rightarrow> or_return (check_loaded W pl (nettypeOf (op_network pl)) w)
                      (or_return (dial_wallet W k pl w) (or_return (await_node W pl w)
                        (publish_wallet W pl path (nettypeOf (op_network pl)) w)))))))))
      (open_end W p s)"
  proof (cases r)
    case (Inl j)
    then show ?thesis by (auto intro!: triple_ret simp: plan_for_def open_end_def resting_def)
  next
    case (Inr pl)
    show ?thesis
      unfolding Inr sum.case
    proof (rule triple_facts [where b = "plan_for (w_what W) p (Inr pl)"], simp, rule triple_conseq [where P' = "resting W s"],
        rule triple_bind [OF already], rule triple_if)
      fix b
      show "leads (\<lambda>t. resting W s t \<and> (b \<longleftrightarrow> m_wallet s \<noteq> 0)) (retM (err ''a wallet is already open; close it first'')) (open_end W p s)"
        by (rule triple_ret) (auto simp: open_end_def resting_def)
    next
      fix b
      assume b: "\<not> b" and plan: "plan_for (w_what W) p (Inr pl)"
      show "leads (\<lambda>t. resting W s t \<and> (b \<longleftrightarrow> m_wallet s \<noteq> 0)) (thenM (setState W Opening []) (bindM (getM (\<lambda>s. walletPath s (op_name pl))) (\<lambda>path.
          thenM (callU W (WM (WM_setDaemonAddress (c_str (hostPort (op_dialUrl pl))))))
          (bindM (load_wallet W k p pl path (nettypeOf (op_network pl))) (\<lambda>r. case r of
              Inl j \<Rightarrow> retM j
            | Inr w \<Rightarrow> or_return (check_loaded W pl (nettypeOf (op_network pl)) w) (or_return (dial_wallet W k pl w)
                (or_return (await_node W pl w) (publish_wallet W pl path (nettypeOf (op_network pl)) w)))))))) (open_end W p s)"
        by (rule triple_facts [where b = "m_wallet s = 0"], simp add: b, rule triple_conseq [OF load])
          (use plan in \<open>auto simp: open_end_def refused_def\<close>)
    qed simp_all
  qed
qed

text \<open>C23. An opening succeeds or leaves nothing open: where \<^verbatim>\<open>doOpenLike\<close> answers, then either with an error, every field but the
  state and its error as before it and the engine with no wallet of ours open that was not open before; or with the result,
  no wallet having been open, and the one now open was loaded by this call, is known by the name and the network asked for and
  the address answered, is syncing without an error, and is the only one added to those the engine has open.\<close>

theorem open_outcome:
  assumes "doOpenLike W k p s = (Inr j, t)"
  shows "(\<exists>e. j = err e) \<and> t\<lparr>m_state := m_state s, m_lastError := m_lastError s, hist := hist s\<rparr> = s \<and>
      (m_state t = m_state s \<or> m_state t = NoWallet) \<and> open_in W (hist t) \<subseteq> open_in W (hist s) \<or>
    m_wallet s = 0 \<and> m_wallet t \<noteq> 0 \<and> m_wallet t \<in> open_in W (hist t) \<and>
      open_in W (hist t) \<subseteq> insert (m_wallet t) (open_in W (hist s)) \<and> m_state t = Syncing \<and> m_lastError t = [] \<and>
      value_str (w_what W) p ''name'' [] = Inr (m_walletName t) \<and> value_str (w_what W) p ''network'' [] = Inr (m_network t) \<and>
      (\<exists>watchOnly. j = ok_result (JObj [(''name'', JStr (m_walletName t)), (''network'', JStr (m_network t)),
           (''address'', JStr (m_primaryAddress t)), (''watchOnly'', JBool watchOnly)]))"
proof -
  have "resting W s s" by (simp add: resting_def unshared_def)
  from tripleD [OF leads_open this assms] show ?thesis
    by (auto simp: open_end_def unshared_def plan_for_def opened_def handed_def)
qed

lemma open_outcome_witness:
  "\<exists>j t. doOpenLike tor_world ''open_wallet'' open_params init_rt = (Inr j, t) \<and> m_wallet t \<in> open_in tor_world (hist t) \<and>
     m_state t = Syncing \<and> m_walletName t = ''w''"
proof -
  obtain j t where t: "doOpenLike tor_world ''open_wallet'' open_params init_rt = (Inr j, t)" "m_wallet t = 1"
    using open_tor_run [of init_rt "[]"] by (auto simp: init_rt_def)
  have "t\<lparr>m_state := m_state init_rt, m_lastError := m_lastError init_rt, hist := hist init_rt\<rparr> \<noteq> init_rt"
  proof
    assume "t\<lparr>m_state := m_state init_rt, m_lastError := m_lastError init_rt, hist := hist init_rt\<rparr> = init_rt"
    then have "m_wallet t = m_wallet init_rt" by (drule_tac f = m_wallet in arg_cong) simp
    with t(2) show False by (simp add: init_rt_def)
  qed
  with open_outcome [OF t(1)] t(1) show ?thesis by (auto simp: sample_request)
qed

text \<open>
  An exception between the load and the hand-over is another matter: the job fails, and the engine keeps the wallet open
  for a module that has no handle of it.
\<close>

definition leaking_world :: world where
  "leaking_world = tor_world\<lparr>w_throw := (\<lambda>tr ev. case ev of
      Wallet w c \<Rightarrow> (case c of W_init a n u p s l x \<Rightarrow> Some (StdException ''init'') | _ \<Rightarrow> None) | _ \<Rightarrow> None),
    w_handle := (\<lambda>tr ev. 7)\<rparr>"

lemma leaking_world_simps:
  "w_throw leaking_world tr (WM c) = None" "w_throw leaking_world tr (Resolve n) = None" "w_throw leaking_world tr (Emit e j) = None"
  "w_throw leaking_world tr (WalletRead w r) = None" "w_throw leaking_world tr (Wallet w (W_init a m u p s l x)) = Some (StdException ''init'')"
  "w_bool leaking_world tr (WM c) = True" "w_handle leaking_world tr ev = 7" "w_int leaking_world tr ev = 0" "w_json leaking_world tr ev = tor_node"
  by (simp_all add: leaking_world_def tor_world_def spending_world_def quiet_world_def)

lemma exception_leaks_wallet:
  assumes "m_wallet s = 0" "m_locksReset s"
  shows "\<exists>t. run_job leaking_world ''open_wallet'' open_params s = (Inr (err ''exception: init''), t) \<and>
    m_wallet t = 0 \<and> 7 \<in> open_in leaking_world (hist t)"
  by (simp add: run_job_def dispatch_def resetLocksOnce_def doOpenLike_def plan_open_def load_wallet_def check_loaded_def dial_wallet_def
      or_return_def setState_def catchM_def runs assms sample_open leaking_world_simps Let_def)

end
