(* ===== verification/Histories.thy ===== *)
theory Histories
  imports System
begin

text \<open>
  The interface of a condition on the history of the calls made: an event that is neither a returned string,
  its release nor an event of the module leaves it, and each of those three is put to it once. What keeps such
  a condition is proved once here, for every operation of the module; the conditions themselves are its
  instances (\<open>Memory\<close>, \<open>Events\<close>).
\<close>

section \<open>The calls that hand a string over\<close>

fun joins :: "event \<Rightarrow> bool" where
  "joins (PendingTx pt (PT_txid sep)) = True"
| "joins (TxInfo t (TI_subaddrIndex sep)) = True"
| "joins _ = False"

fun hands_over :: "event \<Rightarrow> bool" where
  "hands_over (WM WM_errorString) = True"
| "hands_over (WalletRead w W_errorString) = True"
| "hands_over (WalletRead w (W_address a i)) = True"
| "hands_over (WalletRead w (W_getSubaddressLabel a i)) = True"
| "hands_over (WalletRead w (W_seed off)) = True"
| "hands_over (WalletRead w W_secretViewKey) = True"
| "hands_over (PendingTx pt PT_errorString) = True"
| "hands_over (TxInfo t (TI_transfers_address d)) = True"
| "hands_over (TxInfo t TI_hash) = True"
| "hands_over (TxInfo t TI_paymentId) = True"
| "hands_over (TxInfo t TI_description) = True"
| "hands_over _ = False"

fun special :: "event \<Rightarrow> bool" where
  "special (MONERO_free x) = True"
| "special (Emit name payload) = True"
| "special ev = (hands_over ev \<or> joins ev)"

section \<open>The interface\<close>

locale history_invariant =
  fixes W :: world and I :: "rt \<Rightarrow> bool"
  assumes same_hist: "I s \<Longrightarrow> hist t = hist s \<Longrightarrow> I t"
    and event: "I s \<Longrightarrow> \<not> special ev \<Longrightarrow> I (s\<lparr>hist := ev # hist s\<rparr>)"
    and taken: "hands_over ev \<Longrightarrow> keeps I (take_call W ev)"
    and joined: "joins ev \<Longrightarrow> keeps I (joined_call W ev)"
    and state_event: "keeps I (callU W (Emit ''walletStateChanged'' payload))"
    and job_event: "keeps I (callU W (Emit ''jobFinished'' (JObj [(''jobId'', JStr i), (''state'', JStr st)])))"
begin

lemma mods: "(\<And>s. hist (f s) = hist s) \<Longrightarrow> keeps I (modM f)"
  by (rule keeps_mod) (rule same_hist)

lemma base:
  "\<not> special ev \<Longrightarrow> keeps I (call W ans ev)" "\<not> special ev \<Longrightarrow> keeps I (callU W ev)" "\<not> special ev \<Longrightarrow> keeps I (logM ev)"
  "keeps I (nowM W)"
  by (intro keeps_call keeps_callU keeps_log keeps_now event; simp)+

lemma locked: "keeps I body \<Longrightarrow> keeps I (with_lock mu md body)"
  unfolding with_lock_def by (intro keeps base) simp_all

lemma scopes:
  "keeps I busy \<Longrightarrow> keeps I body \<Longrightarrow> keeps I (try_shared W busy body)" "keeps I body \<Longrightarrow> keeps I (with_pause W w body)"
  "keeps I (socketsTo W hp drp)"
  unfolding try_shared_def with_pause_def socketsTo_def by (intro keeps base locked; simp)+

lemmas primitives = taken joined base locked scopes mods state_event job_event

lemma helpers:
  "keeps I (setState W st e)" "keeps I (notifyOpen W network opn)" "keeps I (resetLocksOnce W)"
  "keeps I sendsWaitForTor" "keeps I (verifyPassword W pw)" "keeps I (setWalletsDir dir)"
  unfolding setState_def resetLocksOnce_def notifyOpen_def sendsWaitForTor_def verifyPassword_def setWalletsDir_def
  by (intro primitives keeps; simp)+

section \<open>The operations\<close>

lemma sends:
  "keeps I (doClose W)" "keeps I (doRescan W)" "keeps I (doCreateTransaction W p)"
  "keeps I (doCommit W p)" "keeps I (doDispose W p)" "keeps I (doChangePassword W p)"
  unfolding doClose_def detach_wallet_def close_detached_def doRescan_def doCreateTransaction_def buildTransaction_def
    doCommit_def commitTransaction_def doDispose_def doChangePassword_def
  by (intro primitives helpers keeps; simp add: keep_tx_def drop_tx_def)+

lemma awaiting: "keeps I (await_loop W w n)"
  by (induction n) (simp_all, (intro primitives keeps; simp)+)

lemma opens: "keeps I (doOpenLike W k p)"
  unfolding doOpenLike_def plan_open_def load_wallet_def or_return_def check_loaded_def dial_wallet_def await_node_def
    publish_wallet_def hand_over_def Let_def
  by (intro primitives helpers keeps awaiting) simp_all

lemma background: "keeps I (tick W)" "keeps I (probe W)"
  unfolding tick_def tick_decide_def moveToTor_def relocate_def goOffline_def quieten_def redial_def dial_tor_def
    settle_route_def probe_def Let_def
  by (intro primitives helpers keeps; simp)+

lemma run:
  "keeps I (run_job W k p)" "keeps I (idle W)" "keeps I (announce W i st)" "keeps I (shutdown_close W)"
  "keeps I (onContextReady W dir)"
  unfolding run_job_def dispatch_def idle_def announce_def shutdown_close_def onContextReady_def Let_def
  by (intro primitives helpers keeps sends opens background; simp)+

lemma loops:
  "keeps I (subaddresses_loop W w account js)" "keeps I (destinations_loop W t ds)"
proof -
  show "keeps I (subaddresses_loop W w account js)" by (induction js) (simp_all, (intro primitives keeps; simp)+)
  show "keeps I (destinations_loop W t ds)" by (induction ds) (simp_all, (intro primitives keeps; simp)+)
qed

lemma row: "keeps I (history_row W t)"
  unfolding history_row_def by (intro primitives keeps loops) simp_all

lemma rows: "keeps I (history_loop W h ds)"
  by (induction ds) (simp_all, (intro primitives keeps row; simp)+)

lemma reads:
  "keeps I (status W)" "keeps I (balance W a)" "keeps I (unlockedBalance W a)" "keeps I (address W acc i)"
  "keeps I (subaddresses W a)" "keeps I (createSubaddress W a label)" "keeps I (setSubaddressLabel W a j label)"
  "keeps I (history W)" "keeps I (revealSeed W pw)" "keeps I (revealViewKey W pw)" "keeps I (walletExists W name)"
  unfolding status_def balance_def unlockedBalance_def address_def subaddresses_def createSubaddress_def
    setSubaddressLabel_def history_def revealSeed_def revealViewKey_def walletExists_def Let_def
  by (intro primitives helpers keeps loops rows; simp)+

lemma methods: "keeps I (api W c)"
  by (cases c; simp add: as_result_def; intro keeps reads)

lemma kept: "kept_by_all W I"
  by (simp add: kept_by_all_def kept_by_readers_def methods run background)

lemma reached: "I init_rt \<Longrightarrow> reach W n s \<Longrightarrow> I (s_rt s)"
  by (rule reach_kept [OF kept run(4)])

end

end
