(* ===== verification/Twins.thy ===== *)
theory Twins
  imports Histories
begin

text \<open>
  Two runs side by side. Programs are twins where, from related states, they end alike and in related states:
  the rules for the constructs, the interface of a relation that the calls of the engine respect, and its sweep
  over the worker's programs and the secrets' methods. The relations themselves are its instances (\<open>Isolation\<close>, \<open>Secrecy\<close>).
\<close>

section \<open>Twin programs\<close>

definition twin :: "('s \<Rightarrow> 's \<Rightarrow> bool) \<Rightarrow> ('a \<Rightarrow> 'a \<Rightarrow> bool) \<Rightarrow> ('s, 'a) prog \<Rightarrow> ('s, 'a) prog \<Rightarrow> bool" where
  "twin R Q m m' = (\<forall>s s'. R s s' \<longrightarrow> rel_sum (=) Q (fst (m s)) (fst (m' s')) \<and> R (snd (m s)) (snd (m' s')))"

named_theorems twin "programs that end alike"

lemma twinI: "(\<And>s s'. R s s' \<Longrightarrow> rel_sum (=) Q (fst (m s)) (fst (m' s')) \<and> R (snd (m s)) (snd (m' s'))) \<Longrightarrow> twin R Q m m'"
  by (simp add: twin_def)

lemma twinD:
  assumes "twin R Q m m'" "R s s'"
  obtains (thrown) e t t' where "m s = (Inl e, t)" "m' s' = (Inl e, t')" "R t t'"
    | (result) x x' t t' where "m s = (Inr x, t)" "m' s' = (Inr x', t')" "Q x x'" "R t t'"
  using assms by (cases "m s"; cases "m' s'") (fastforce simp: twin_def rel_sum.simps)

lemma twin_run: "twin R (=) m m' \<Longrightarrow> R s s' \<Longrightarrow> fst (m s) = fst (m' s') \<and> R (snd (m s)) (snd (m' s'))"
  by (simp add: twin_def sum.rel_eq)

lemma twin_ret: "Q x x' \<Longrightarrow> twin R Q (retM x) (retM x')"
  by (simp add: twin_def runs)

lemma twin_lift: "rel_sum (=) Q r r' \<Longrightarrow> twin R Q (liftM r) (liftM r')"
  by (simp add: twin_def runs)

lemma twin_get: "(\<And>s s'. R s s' \<Longrightarrow> Q (f s) (f' s')) \<Longrightarrow> twin R Q (getM f) (getM f')"
  by (simp add: twin_def runs)

lemma twin_mod: "(\<And>s s'. R s s' \<Longrightarrow> R (f s) (f' s')) \<Longrightarrow> twin R (=) (modM f) (modM f')"
  by (simp add: twin_def runs)

lemma twin_bind_rel:
  assumes "twin R P m m'" "\<And>x x'. P x x' \<Longrightarrow> twin R Q (k x) (k' x')"
  shows "twin R Q (bindM m k) (bindM m' k')"
proof (rule twinI)
  fix s s' assume "R s s'"
  with assms(1) show "rel_sum (=) Q (fst (bindM m k s)) (fst (bindM m' k' s')) \<and> R (snd (bindM m k s)) (snd (bindM m' k' s'))"
  proof (cases rule: twinD)
    case (result x x' t t')
    with assms(2) [of x x'] show ?thesis by (simp add: runs twin_def)
  qed (simp add: runs)
qed

lemma twin_refl_ret [twin]: "twin R (=) (retM x) (retM x)" "twin R (=) (liftM r) (liftM r)" "twin R (=) (throwM e) (throwM e)"
  by (simp_all add: twin_def runs throwM_def rel_sum.simps) (cases r; simp)

lemma twin_bind [twin]:
  "twin R (=) m m' \<Longrightarrow> (\<And>x. twin R Q (k x) (k' x)) \<Longrightarrow> twin R Q (bindM m k) (bindM m' k')"
  by (rule twin_bind_rel [of R "(=)"]) simp_all

lemma twin_then [twin]: "twin R (=) m m' \<Longrightarrow> twin R Q k k' \<Longrightarrow> twin R Q (thenM m k) (thenM m' k')"
  by (simp add: thenM_def twin_bind)

lemma twin_if [twin]: "(b \<Longrightarrow> twin R Q m m') \<Longrightarrow> (\<not> b \<Longrightarrow> twin R Q n n') \<Longrightarrow> twin R Q (if b then m else n) (if b then m' else n')"
  by simp

lemma twin_when [twin]: "(b \<Longrightarrow> twin R (=) m m') \<Longrightarrow> twin R (=) (whenM b m) (whenM b m')"
  by (simp add: whenM_def twin_refl_ret)

lemma twin_for [twin]: "(\<And>x. twin R (=) (f x) (f' x)) \<Longrightarrow> twin R (=) (forM xs f) (forM xs f')"
  by (induction xs) (auto intro: twin)

lemma twin_case_option [twin]:
  "(x = None \<Longrightarrow> twin R Q m m') \<Longrightarrow> (\<And>y. x = Some y \<Longrightarrow> twin R Q (k y) (k' y)) \<Longrightarrow>
   twin R Q (case x of None \<Rightarrow> m | Some y \<Rightarrow> k y) (case x of None \<Rightarrow> m' | Some y \<Rightarrow> k' y)"
  by (cases x) simp_all

lemma twin_case_prod [twin]:
  "(\<And>a b. x = (a, b) \<Longrightarrow> twin R Q (k a b) (k' a b)) \<Longrightarrow> twin R Q (case x of (a, b) \<Rightarrow> k a b) (case x of (a, b) \<Rightarrow> k' a b)"
  by (cases x) simp

lemma twin_case_sum [twin]:
  "(\<And>a. x = Inl a \<Longrightarrow> twin R Q (f a) (f' a)) \<Longrightarrow> (\<And>b. x = Inr b \<Longrightarrow> twin R Q (g b) (g' b)) \<Longrightarrow>
   twin R Q (case x of Inl a \<Rightarrow> f a | Inr b \<Rightarrow> g b) (case x of Inl a \<Rightarrow> f' a | Inr b \<Rightarrow> g' b)"
  by (cases x) simp_all

lemma twin_catch [twin]:
  assumes "twin R Q m m'" "\<And>w. twin R Q (h1 w) (h1' w)" "twin R Q h2 h2'"
  shows "twin R Q (catchM m h1 h2) (catchM m' h1' h2')"
proof (rule twinI)
  fix s s' assume "R s s'"
  with assms(1) show "rel_sum (=) Q (fst (catchM m h1 h2 s)) (fst (catchM m' h1' h2' s')) \<and>
      R (snd (catchM m h1 h2 s)) (snd (catchM m' h1' h2' s'))"
  proof (cases rule: twinD)
    case (thrown e t t')
    with assms(2,3) show ?thesis by (cases e) (simp_all add: catchM_def twin_def)
  qed (simp add: catchM_def)
qed

lemma twin_finally [twin]:
  assumes "twin R Q m m'" "twin R (=) d d'"
  shows "twin R Q (finallyM m d) (finallyM m' d')"
proof (rule twinI)
  fix s s' assume "R s s'"
  with assms(1) show "rel_sum (=) Q (fst (finallyM m d s)) (fst (finallyM m' d' s')) \<and>
      R (snd (finallyM m d s)) (snd (finallyM m' d' s'))"
  proof (cases rule: twinD)
    case (thrown e t t')
    show ?thesis
      by (rule twinD [OF assms(2) thrown(3)]) (simp_all add: finallyM_def thrown)
  next
    case (result x x' t t')
    show ?thesis
      by (rule twinD [OF assms(2) result(4)]) (simp_all add: finallyM_def result)
  qed
qed

section \<open>States that look alike\<close>

text \<open>What is compared of a state: every field but the history, and the probe's reading only where \<open>b\<close>.\<close>

definition seen :: "bool \<Rightarrow> rt \<Rightarrow> rt" where
  "seen b s = (if b then s\<lparr>hist := []\<rparr> else s\<lparr>m_probed := False, m_daemonConnected := False, m_daemonHeight := 0, hist := []\<rparr>)"

definition alike :: "bool \<Rightarrow> (trace \<Rightarrow> trace \<Rightarrow> bool) \<Rightarrow> rt \<Rightarrow> rt \<Rightarrow> bool" where
  "alike b H s s' \<longleftrightarrow> seen b s = seen b s' \<and> H (hist s) (hist s')"

lemma seen_reads:
  "m_walletsDir (seen b s) = m_walletsDir s" "m_locksReset (seen b s) = m_locksReset s"
  "m_wallet (seen b s) = m_wallet s" "m_pendingTx (seen b s) = m_pendingTx s" "m_nextTx (seen b s) = m_nextTx s"
  "m_state (seen b s) = m_state s" "m_walletName (seen b s) = m_walletName s" "m_network (seen b s) = m_network s"
  "m_primaryAddress (seen b s) = m_primaryAddress s" "m_lastError (seen b s) = m_lastError s"
  "m_nettype (seen b s) = m_nettype s" "m_lastSynced (seen b s) = m_lastSynced s" "m_route (seen b s) = m_route s"
  "m_dialPeer (seen b s) = m_dialPeer s" "m_progressHeight (seen b s) = m_progressHeight s"
  "m_progressAt (seen b s) = m_progressAt s" "m_torUrl (seen b s) = m_torUrl s"
  "m_torAskedAt (seen b s) = m_torAskedAt s" "m_torUse (seen b s) = m_torUse s"
  by (simp_all add: seen_def)

lemma seen_field: "seen b s = seen b s' \<Longrightarrow> f (seen b s) = f (seen b s')"
  by simp

lemma seen_fields:
  assumes "seen b s = seen b s'"
  shows "m_walletsDir s = m_walletsDir s' \<and> m_locksReset s = m_locksReset s' \<and> m_wallet s = m_wallet s' \<and>
    m_pendingTx s = m_pendingTx s' \<and> m_nextTx s = m_nextTx s' \<and> m_state s = m_state s' \<and>
    m_walletName s = m_walletName s' \<and> m_network s = m_network s' \<and>
    m_primaryAddress s = m_primaryAddress s' \<and> m_lastError s = m_lastError s' \<and>
    m_nettype s = m_nettype s' \<and> m_lastSynced s = m_lastSynced s' \<and> m_route s = m_route s' \<and>
    m_dialPeer s = m_dialPeer s' \<and> m_progressHeight s = m_progressHeight s' \<and>
    m_progressAt s = m_progressAt s' \<and> m_torUrl s = m_torUrl s' \<and> m_torAskedAt s = m_torAskedAt s' \<and>
    m_torUse s = m_torUse s'"
proof -
  note f = seen_field [OF assms]
  show ?thesis
    using f [of m_walletsDir] f [of m_locksReset] f [of m_wallet] f [of m_pendingTx] f [of m_nextTx] f [of m_state]
      f [of m_walletName] f [of m_network] f [of m_primaryAddress] f [of m_lastError] f [of m_nettype]
      f [of m_lastSynced] f [of m_route] f [of m_dialPeer] f [of m_progressHeight] f [of m_progressAt]
      f [of m_torUrl] f [of m_torAskedAt] f [of m_torUse]
    unfolding seen_reads by (intro conjI)
qed

lemma seen_writes [simp]:
  "seen b (s\<lparr>m_walletsDir := v0\<rparr>) = (seen b s)\<lparr>m_walletsDir := v0\<rparr>"
  "seen b (s\<lparr>m_locksReset := v1\<rparr>) = (seen b s)\<lparr>m_locksReset := v1\<rparr>"
  "seen b (s\<lparr>m_wallet := v2\<rparr>) = (seen b s)\<lparr>m_wallet := v2\<rparr>"
  "seen b (s\<lparr>m_pendingTx := v3\<rparr>) = (seen b s)\<lparr>m_pendingTx := v3\<rparr>"
  "seen b (s\<lparr>m_nextTx := v4\<rparr>) = (seen b s)\<lparr>m_nextTx := v4\<rparr>"
  "seen b (s\<lparr>m_state := v5\<rparr>) = (seen b s)\<lparr>m_state := v5\<rparr>"
  "seen b (s\<lparr>m_walletName := v6\<rparr>) = (seen b s)\<lparr>m_walletName := v6\<rparr>"
  "seen b (s\<lparr>m_network := v7\<rparr>) = (seen b s)\<lparr>m_network := v7\<rparr>"
  "seen b (s\<lparr>m_primaryAddress := v8\<rparr>) = (seen b s)\<lparr>m_primaryAddress := v8\<rparr>"
  "seen b (s\<lparr>m_lastError := v9\<rparr>) = (seen b s)\<lparr>m_lastError := v9\<rparr>"
  "seen b (s\<lparr>m_nettype := v10\<rparr>) = (seen b s)\<lparr>m_nettype := v10\<rparr>"
  "seen b (s\<lparr>m_lastSynced := v11\<rparr>) = (seen b s)\<lparr>m_lastSynced := v11\<rparr>"
  "seen b (s\<lparr>m_route := v12\<rparr>) = (seen b s)\<lparr>m_route := v12\<rparr>"
  "seen b (s\<lparr>m_dialPeer := v13\<rparr>) = (seen b s)\<lparr>m_dialPeer := v13\<rparr>"
  "seen b (s\<lparr>m_progressHeight := v14\<rparr>) = (seen b s)\<lparr>m_progressHeight := v14\<rparr>"
  "seen b (s\<lparr>m_progressAt := v15\<rparr>) = (seen b s)\<lparr>m_progressAt := v15\<rparr>"
  "seen b (s\<lparr>m_torUrl := v16\<rparr>) = (seen b s)\<lparr>m_torUrl := v16\<rparr>"
  "seen b (s\<lparr>m_torAskedAt := v17\<rparr>) = (seen b s)\<lparr>m_torAskedAt := v17\<rparr>"
  "seen b (s\<lparr>m_torUse := v18\<rparr>) = (seen b s)\<lparr>m_torUse := v18\<rparr>"
  "seen b (s\<lparr>m_probed := w0\<rparr>) = (if b then (seen b s)\<lparr>m_probed := w0\<rparr> else seen b s)"
  "seen b (s\<lparr>m_daemonConnected := w1\<rparr>) = (if b then (seen b s)\<lparr>m_daemonConnected := w1\<rparr> else seen b s)"
  "seen b (s\<lparr>m_daemonHeight := w2\<rparr>) = (if b then (seen b s)\<lparr>m_daemonHeight := w2\<rparr> else seen b s)"
  by (simp_all add: seen_def)

lemma seen_hist [simp]: "seen b (s\<lparr>hist := h\<rparr>) = seen b s"
  by (simp add: seen_def)

text \<open>A change that what is compared determines.\<close>

definition determined :: "bool \<Rightarrow> (rt \<Rightarrow> rt) \<Rightarrow> bool" where
  "determined b f \<longleftrightarrow> (\<forall>s s'. seen b s = seen b s' \<longrightarrow> seen b (f s) = seen b (f s')) \<and> (\<forall>s. hist (f s) = hist s)"

lemma determinedI:
  "(\<And>s s'. seen b s = seen b s' \<Longrightarrow> seen b (f s) = seen b (f s')) \<Longrightarrow> (\<And>s. hist (f s) = hist s) \<Longrightarrow> determined b f"
  unfolding determined_def by blast

section \<open>The secrets of a request\<close>

definition secret_key :: "string \<Rightarrow> bool" where
  "secret_key k \<longleftrightarrow> k \<in> set [''password'', ''seed'', ''seedOffset'', ''viewKey'', ''spendKey'', ''oldPassword'', ''newPassword'']"

fun carries_secret :: "event \<Rightarrow> bool" where
  "carries_secret (WM (WM_openWallet path pw net)) = True"
| "carries_secret (WM (WM_createWallet path pw lang net)) = True"
| "carries_secret (WM (WM_recoveryWallet path pw seed net height rounds off)) = True"
| "carries_secret (WM (WM_createWalletFromKeys path pw lang net height addr view spend rounds)) = True"
| "carries_secret (WM (WM_verifyWalletPassword keys pw noSpend rounds)) = True"
| "carries_secret (Wallet w (W_setPassword pw)) = True"
| "carries_secret ev = False"

text \<open>Two requests with the same members, the secret ones paired by \<open>peer\<close>.\<close>

definition asked :: "what \<Rightarrow> (string \<Rightarrow> string \<Rightarrow> bool) \<Rightarrow> json \<Rightarrow> json \<Rightarrow> bool" where
  "asked what peer p p' \<longleftrightarrow> (\<forall>k. secret_key k \<longrightarrow> rel_sum (=) peer (value_str what p k []) (value_str what p' k [])) \<and>
     (\<forall>k d. \<not> secret_key k \<longrightarrow> value_str what p k d = value_str what p' k d) \<and>
     (\<forall>k d. \<not> secret_key k \<longrightarrow> value_num what p k d = value_num what p' k d)"

section \<open>The interface\<close>

text \<open>
  Histories related by \<open>H\<close>, calls that count as the same, and secrets that may stand for each other in the calls that
  carry one: the engine answers the same calls alike.
\<close>

locale indistinct =
  fixes W :: world and W' :: world and b :: bool and H :: "trace \<Rightarrow> trace \<Rightarrow> bool" and same :: "event \<Rightarrow> event \<Rightarrow> bool"
    and peer :: "string \<Rightarrow> string \<Rightarrow> bool"
  assumes grows: "H h h' \<Longrightarrow> same ev ev' \<Longrightarrow> H (ev # h) (ev' # h')"
    and same_plain: "\<not> carries_secret ev \<Longrightarrow> same ev ev"
    and static: "w_what W' = w_what W" "w_has_notify W' = w_has_notify W" "w_version W' = w_version W"
    and same_os: "H h h' \<Longrightarrow> w_os W h = w_os W' h'"
    and answers: "H h h' \<Longrightarrow> same ev ev' \<Longrightarrow> w_throw W h ev = w_throw W' h' ev' \<and> w_bool W h ev = w_bool W' h' ev' \<and>
      w_int W h ev = w_int W' h' ev' \<and> w_u64 W h ev = w_u64 W' h' ev' \<and> w_handle W h ev = w_handle W' h' ev' \<and>
      w_str W h ev = w_str W' h' ev' \<and> w_json W h ev = w_json W' h' ev'"
    and peers: "peer pw pw' \<Longrightarrow> same (WM (WM_openWallet path (c_str pw) net)) (WM (WM_openWallet path (c_str pw') net))"
      "peer pw pw' \<Longrightarrow> same (WM (WM_createWallet path (c_str pw) lang net)) (WM (WM_createWallet path (c_str pw') lang net))"
      "peer pw pw' \<Longrightarrow> peer seed seed' \<Longrightarrow> peer off off' \<Longrightarrow>
        same (WM (WM_recoveryWallet path (c_str pw) (c_str seed) net height 1 (c_str off)))
          (WM (WM_recoveryWallet path (c_str pw') (c_str seed') net height 1 (c_str off')))"
      "peer pw pw' \<Longrightarrow> peer view view' \<Longrightarrow> peer spend spend' \<Longrightarrow>
        same (WM (WM_createWalletFromKeys path (c_str pw) lang net height addr (c_str view) (c_str spend) 1))
          (WM (WM_createWalletFromKeys path (c_str pw') lang net height addr (c_str view') (c_str spend') 1))"
      "peer pw pw' \<Longrightarrow> same (WM (WM_verifyWalletPassword keys (c_str pw) False 1)) (WM (WM_verifyWalletPassword keys (c_str pw') False 1))"
      "peer pw pw' \<Longrightarrow> same (Wallet w (W_setPassword (c_str pw))) (Wallet w (W_setPassword (c_str pw')))"
begin

abbreviation twins :: "'a run \<Rightarrow> 'a run \<Rightarrow> bool" where
  "twins \<equiv> twin (alike b H) (=)"

lemma heard:
  assumes "H h h'" "same ev ev'"
  shows "w_throw W h ev = w_throw W' h' ev'" "w_bool W h ev = w_bool W' h' ev'" "w_int W h ev = w_int W' h' ev'"
    "w_u64 W h ev = w_u64 W' h' ev'" "w_handle W h ev = w_handle W' h' ev'" "w_str W h ev = w_str W' h' ev'"
    "w_json W h ev = w_json W' h' ev'"
  using answers [OF assms] by blast+

lemma alike_event: "alike b H s s' \<Longrightarrow> same ev ev' \<Longrightarrow> alike b H (s\<lparr>hist := ev # hist s\<rparr>) (s'\<lparr>hist := ev' # hist s'\<rparr>)"
  by (simp add: alike_def grows)

lemma call_twins:
  assumes "\<And>h h'. H h h' \<Longrightarrow> ans h ev = ans' h' ev'" "same ev ev'"
  shows "twins (call W ans ev) (call W' ans' ev')"
proof (rule twinI)
  fix s s' assume "alike b H s s'"
  with assms alike_event [OF this assms(2)] heard(1) [OF _ assms(2), of "hist s" "hist s'"]
  show "rel_sum (=) (=) (fst (call W ans ev s)) (fst (call W' ans' ev' s')) \<and>
      alike b H (snd (call W ans ev s)) (snd (call W' ans' ev' s'))"
    by (auto simp: call_def Let_def alike_def split: option.splits)
qed

lemma secret_calls:
  assumes "same ev ev'"
  shows "twins (call W (w_bool W) ev) (call W' (w_bool W') ev')" "twins (call W (w_handle W) ev) (call W' (w_handle W') ev')"
  by (intro call_twins heard assms; assumption)+

lemma calls:
  assumes "\<not> carries_secret ev"
  shows "twins (call W (w_bool W) ev) (call W' (w_bool W') ev)" "twins (call W (w_int W) ev) (call W' (w_int W') ev)"
    "twins (call W (w_u64 W) ev) (call W' (w_u64 W') ev)" "twins (call W (w_handle W) ev) (call W' (w_handle W') ev)"
    "twins (call W (w_str W) ev) (call W' (w_str W') ev)" "twins (call W (w_json W) ev) (call W' (w_json W') ev)"
    "twins (callU W ev) (callU W' ev)" "twins (logM ev) (logM ev)"
  unfolding callU_def logM_def
  by (intro call_twins heard same_plain assms refl twin_mod alike_event; assumption)+

lemma get_seen: "(\<And>s s'. seen b s = seen b s' \<Longrightarrow> f s = f s') \<Longrightarrow> twins (getM f) (getM f)"
  by (rule twin_get) (unfold alike_def, blast)

lemma mod_seen: "determined b f \<Longrightarrow> twins (modM f) (modM f)"
  by (rule twin_mod) (unfold alike_def determined_def, metis)

lemma same_fds: "alike b H s s' \<Longrightarrow> socketsTo_fds (w_os W (hist s)) hp = socketsTo_fds (w_os W' (hist s')) hp"
  using same_os [of "hist s" "hist s'"] by (simp add: alike_def)

lemma asks:
  "\<not> carries_secret ev \<Longrightarrow> twins (getM (\<lambda>s. w_bool W (hist s) ev)) (getM (\<lambda>s. w_bool W' (hist s) ev))"
  "twins (nowM W) (nowM W')"
  unfolding nowM_def by (intro twin calls twin_get heard same_plain; simp add: alike_def)+

lemma locked: "twin (alike b H) Q body body' \<Longrightarrow> twin (alike b H) Q (with_lock mu md body) (with_lock mu md body')"
  unfolding with_lock_def by (intro twin calls) simp_all

lemma scopes:
  "twins busy busy' \<Longrightarrow> twins body body' \<Longrightarrow> twins (try_shared W busy body) (try_shared W' busy' body')"
  "twins body body' \<Longrightarrow> twins (with_pause W w body) (with_pause W' w body')"
  "twins (takeM W p) (takeM W' p)" "twins (takeJoined W p) (takeJoined W' p)" "twins (socketsTo W hp drp) (socketsTo W' hp drp)"
  unfolding try_shared_def with_pause_def takeM_def takeJoined_def socketsTo_def
  by (intro twin calls asks locked twin_get same_fds; (assumption | simp))+

lemmas basics = twin calls asks locked scopes

lemma status_static: "statusLocked W' = statusLocked W"
  by (simp add: statusLocked_def static fun_eq_iff)

lemma helpers:
  "twins (setState W st e) (setState W' st e)" "twins (notifyOpen W network opn) (notifyOpen W' network opn)"
  "twins (resetLocksOnce W) (resetLocksOnce W')" "twins sendsWaitForTor sendsWaitForTor"
  unfolding setState_def resetLocksOnce_def notifyOpen_def sendsWaitForTor_def static status_static
  by (intro basics get_seen mod_seen determinedI; (frule seen_fields)?; simp add: statusLocked_def static)+

text \<open>What is read of the request.\<close>

lemma plain_member:
  assumes "asked (w_what W) peer p p'" "\<not> secret_key k"
  shows "value_str (w_what W) p' k d = value_str (w_what W) p k d" "value_num (w_what W) p' k n = value_num (w_what W) p k n"
  using assms unfolding asked_def by metis+

lemma plain_twins:
  assumes "asked (w_what W) peer p p'" "\<not> secret_key k"
  shows "twins (liftM (value_str (w_what W) p k d)) (liftM (value_str (w_what W) p' k d))"
    "twins (liftM (value_num (w_what W) p k n)) (liftM (value_num (w_what W) p' k n))"
  unfolding plain_member [OF assms] by (rule twin)+

lemma secret_member:
  assumes "asked (w_what W) peer p p'" "secret_key k"
  shows "twin (alike b H) peer (liftM (value_str (w_what W) p k [])) (liftM (value_str (w_what W) p' k []))"
  using assms by (intro twin_lift) (simp add: asked_def)

lemma secret_then:
  assumes "asked (w_what W) peer p p'" "secret_key k" "\<And>x x'. peer x x' \<Longrightarrow> twin (alike b H) Q (f x) (f' x')"
  shows "twin (alike b H) Q (bindM (liftM (value_str (w_what W) p k [])) f) (bindM (liftM (value_str (w_what W) p' k [])) f')"
  by (rule twin_bind_rel [OF secret_member [OF assms(1,2)]]) (rule assms(3))

lemma verify_twins: "peer pw pw' \<Longrightarrow> twins (verifyPassword W pw) (verifyPassword W' pw')"
  unfolding verifyPassword_def static
  by (intro basics get_seen secret_calls peers; (frule seen_fields)?; simp add: walletPath_def)

section \<open>The jobs on an open wallet\<close>

lemma tidy: "determined b (\<lambda>s. s\<lparr>m_wallet := 0, m_pendingTx := Map.empty\<rparr>)" "determined b (keep_tx pt)"
  "determined b (drop_tx h)" "determined b (\<lambda>s. s\<lparr>m_wallet := w\<rparr>)"
  by (rule determinedI; (frule seen_fields)?; simp add: keep_tx_def drop_tx_def tx_handle_def)+

lemma closes: "twins (doClose W) (doClose W')" "twins (doRescan W) (doRescan W')" "twins (shutdown_close W) (shutdown_close W')"
  unfolding doClose_def detach_wallet_def close_detached_def doRescan_def shutdown_close_def static
  by (intro basics helpers get_seen mod_seen tidy; (rule determinedI)?; (frule seen_fields)?; (cases b)?; simp)+

lemma sends:
  assumes "asked (w_what W) peer p p'"
  shows "twins (doCreateTransaction W p) (doCreateTransaction W' p')" "twins (doCommit W p) (doCommit W' p')"
    "twins (doDispose W p) (doDispose W' p')"
  unfolding doCreateTransaction_def buildTransaction_def doCommit_def commitTransaction_def doDispose_def Let_def static
  by (intro basics helpers get_seen mod_seen tidy plain_twins [OF assms]; (frule seen_fields)?; simp add: tx_handle_def secret_key_def)+

lemma changes_password:
  assumes "asked (w_what W) peer p p'"
  shows "twins (doChangePassword W p) (doChangePassword W' p')"
  unfolding doChangePassword_def static
  by (intro secret_then [OF assms] basics helpers get_seen verify_twins secret_calls peers; (frule seen_fields)?;
    (assumption | simp add: secret_key_def))

section \<open>Openings\<close>

definition same_plan :: "json + open_plan \<Rightarrow> json + open_plan \<Rightarrow> bool" where
  "same_plan = rel_sum (=) (\<lambda>pl pl'. pl' = pl\<lparr>op_password := op_password pl'\<rparr> \<and> peer (op_password pl) (op_password pl'))"

lemma same_plan_made:
  "same_plan (Inl j) (Inl j)" "peer (op_password pl) pw' \<Longrightarrow> same_plan (Inr pl) (Inr (pl\<lparr>op_password := pw'\<rparr>))"
  by (simp_all add: same_plan_def)

lemma plan_reads:
  "op_name (pl\<lparr>op_password := pw\<rparr>) = op_name pl" "op_password (pl\<lparr>op_password := pw\<rparr>) = pw"
  "op_network (pl\<lparr>op_password := pw\<rparr>) = op_network pl" "op_node (pl\<lparr>op_password := pw\<rparr>) = op_node pl"
  "op_url (pl\<lparr>op_password := pw\<rparr>) = op_url pl" "op_proxyRequired (pl\<lparr>op_password := pw\<rparr>) = op_proxyRequired pl"
  "op_torUse (pl\<lparr>op_password := pw\<rparr>) = op_torUse pl" "op_route (pl\<lparr>op_password := pw\<rparr>) = op_route pl"
  "op_dialUrl (pl\<lparr>op_password := pw\<rparr>) = op_dialUrl pl" "op_dialProxy (pl\<lparr>op_password := pw\<rparr>) = op_dialProxy pl"
  by simp_all

lemma plans:
  assumes "asked (w_what W) peer p p'"
  shows "twin (alike b H) same_plan (plan_open W p) (plan_open W' p')"
  unfolding plan_open_def Let_def static
  by (rule twin_bind, rule plain_twins [OF assms], simp add: secret_key_def,
    rule secret_then [OF assms], simp add: secret_key_def, rule twin_bind, rule plain_twins [OF assms], simp add: secret_key_def)
   (intro basics twin_ret same_plan_made(1); simp add: same_plan_def)

lemma loads:
  assumes "asked (w_what W) peer p p'" "peer (op_password pl) pw'"
  shows "twins (load_wallet W k p pl path net) (load_wallet W' k p' (pl\<lparr>op_password := pw'\<rparr>) path net)"
  unfolding load_wallet_def Let_def plan_reads static
  by (intro plain_twins [OF assms(1)] secret_then [OF assms(1)] basics helpers secret_calls peers assms(2);
    (assumption | simp add: secret_key_def))

lemma awaits: "twins (await_loop W w n) (await_loop W' w n)"
  by (induction n) (simp_all, (intro basics; simp)+)

lemma phases:
  "twins (check_loaded W pl net w) (check_loaded W' (pl\<lparr>op_password := pw\<rparr>) net w)"
  "twins (dial_wallet W k pl w) (dial_wallet W' k (pl\<lparr>op_password := pw\<rparr>) w)"
  "twins (await_node W pl w) (await_node W' (pl\<lparr>op_password := pw\<rparr>) w)"
  "twins (publish_wallet W pl path net w) (publish_wallet W' (pl\<lparr>op_password := pw\<rparr>) path net w)"
  unfolding check_loaded_def dial_wallet_def await_node_def publish_wallet_def hand_over_def plan_reads Let_def static
  by (intro awaits basics helpers mod_seen tidy; (rule determinedI)?; (frule seen_fields)?; (cases b)?; simp)+

lemma early: "twins m m' \<Longrightarrow> twins n n' \<Longrightarrow> twins (or_return m n) (or_return m' n')"
  unfolding or_return_def static by (intro twin)

lemma opens:
  assumes "asked (w_what W) peer p p'"
  shows "twins (doOpenLike W k p) (doOpenLike W' k p')"
  unfolding doOpenLike_def static
proof (rule twin_bind_rel [OF plans [OF assms]], goal_cases)
  case (1 r r')
  show ?case
  proof (cases r)
    case (Inl j)
    with 1 show ?thesis by (cases r') (auto simp: same_plan_def intro: twin)
  next
    case (Inr pl)
    with 1 obtain pw' where r': "r' = Inr (pl\<lparr>op_password := pw'\<rparr>)" "peer (op_password pl) pw'"
      by (cases r') (auto simp: same_plan_def)
    show ?thesis
      unfolding Inr r' sum.case plan_reads Let_def
      static by (intro early loads [OF assms r'(2)] phases basics helpers get_seen; (frule seen_fields)?; simp add: walletPath_def)
  qed
qed

section \<open>The worker's turns\<close>

lemma turns: "twins (tick W) (tick W')" "twins (moveToTor W ab node) (moveToTor W' ab node)"
  unfolding tick_def tick_decide_def moveToTor_def relocate_def goOffline_def quieten_def redial_def dial_tor_def
    settle_route_def Let_def static
  by (intro basics helpers get_seen mod_seen; (rule determinedI)?; (frule seen_fields)?; (cases b)?; simp)+

lemma jobs:
  assumes "asked (w_what W) peer p p'"
  shows "twins (run_job W k p) (run_job W' k p')" 
  unfolding run_job_def dispatch_def static
  by (intro basics helpers opens sends changes_password closes assms)

lemma others: "twins (idle W) (idle W')" "twins (announce W i st) (announce W' i st)"
  unfolding idle_def announce_def static by (intro basics turns; simp)+

lemma reveals:
  assumes "peer pw pw'"
  shows "twins (revealSeed W pw) (revealSeed W' pw')" "twins (revealViewKey W pw) (revealViewKey W' pw')"
  unfolding revealSeed_def revealViewKey_def static
  by (intro basics verify_twins get_seen assms; (frule seen_fields)?; simp)+

end

end
