(* ===== verification/Isolation.thy ===== *)
theory Isolation
  imports Twins
begin

text \<open>
  The worker apart from the probe's thread: nothing the worker does depends on what the probe last stored, so
  it may store it at any time.
\<close>

interpretation apart: indistinct W W False "(=)" "(=)" "(=)" for W
  by unfold_locales simp_all

lemma asked_same: "asked what (=) p p"
  by (simp add: asked_def sum.rel_eq)

text \<open>The state without the probe's reading, and with another one.\<close>

definition unprobed :: "rt \<Rightarrow> rt" where
  "unprobed s = s\<lparr>m_probed := False, m_daemonConnected := False, m_daemonHeight := 0\<rparr>"

definition probed_as :: "bool \<Rightarrow> bool \<Rightarrow> u64 \<Rightarrow> rt \<Rightarrow> rt" where
  "probed_as probed connected height s = s\<lparr>m_probed := probed, m_daemonConnected := connected, m_daemonHeight := height\<rparr>"

lemma alike_probed: "alike False (=) (probed_as a c h s) s"
  by (simp add: alike_def seen_def probed_as_def)

lemma alike_unprobed: "alike False (=) s s' \<Longrightarrow> unprobed s = unprobed s'"
  by (cases s; cases s') (simp add: alike_def seen_def unprobed_def)

lemma undisturbed:
  assumes "twin (alike False (=)) (=) m m"
  shows "map_prod id unprobed (m (probed_as a c h s)) = map_prod id unprobed (m s)"
  using twin_run [OF assms alike_probed [of a c h s]]
  by (cases "m s"; cases "m (probed_as a c h s)") (simp add: alike_unprobed)

text \<open>C27. The probe never disturbs the worker: from states that differ only in what the probe stored, every job, every idle turn
  with the move to Tor, every announcement and the close at shutdown make the same calls, answer the same and leave the same
  state, but for the probe's reading.\<close>

theorem worker_ignores_probe:
  "map_prod id unprobed (run_job W k p (probed_as a c h s)) = map_prod id unprobed (run_job W k p s) \<and>
   map_prod id unprobed (idle W (probed_as a c h s)) = map_prod id unprobed (idle W s) \<and>
   map_prod id unprobed (announce W i st (probed_as a c h s)) = map_prod id unprobed (announce W i st s) \<and>
   map_prod id unprobed (shutdown_close W (probed_as a c h s)) = map_prod id unprobed (shutdown_close W s)"
  by (intro conjI undisturbed apart.jobs apart.others apart.closes asked_same)

end
