(* ===== verification/Secrecy.thy ===== *)
theory Secrecy
  imports Twins
begin

text \<open>
  What becomes of passwords, seeds and keys: with every secret renamed in the requests, and an engine that takes the
  renamed ones for the original, every operation answers the same, makes the same calls but for the secrets in
  the engine's arguments, and leaves the same state. The module never looks into a secret.
\<close>

section \<open>Methods with and without a password\<close>

fun plain_call :: "api_call \<Rightarrow> bool" where
  "plain_call (ApiRevealSeed pw) = False"
| "plain_call (ApiRevealViewKey pw) = False"
| "plain_call c = True"

context indistinct
begin

lemma probe_fields:
  assumes "seen b s = seen b s'" b
  shows "m_probed s = m_probed s' \<and> m_daemonConnected s = m_daemonConnected s' \<and> m_daemonHeight s = m_daemonHeight s'"
  using seen_field [OF assms(1), of m_probed] seen_field [OF assms(1), of m_daemonConnected] seen_field [OF assms(1), of m_daemonHeight]
  by (simp add: seen_def assms(2))

lemma loops:
  "twins (subaddresses_loop W w account js) (subaddresses_loop W' w account js)" "twins (destinations_loop W t ds) (destinations_loop W' t ds)"
proof -
  show "twins (subaddresses_loop W w account js) (subaddresses_loop W' w account js)"
    by (induction js) (simp_all add: twin_ret, (intro basics; (assumption | simp))+)
  show "twins (destinations_loop W t ds) (destinations_loop W' t ds)"
    by (induction ds) (simp_all add: twin_ret, (intro basics; (assumption | simp))+)
qed

lemma row: "twins (history_row W t) (history_row W' t)"
  unfolding history_row_def by (intro basics loops) simp_all

lemma rows: "twins (history_loop W h ds) (history_loop W' h ds)"
  by (induction ds) (simp_all add: twin_ret, (intro basics row; (assumption | simp)))

lemma reads:
  "twins (balance W a) (balance W' a)" "twins (unlockedBalance W a) (unlockedBalance W' a)" "twins (address W acc i) (address W' acc i)"
  "twins (subaddresses W a) (subaddresses W' a)" "twins (createSubaddress W a label) (createSubaddress W' a label)"
  "twins (setSubaddressLabel W a j label) (setSubaddressLabel W' a j label)" "twins (history W) (history W')"
  "twins (walletExists W name) (walletExists W' name)" "twins (onContextReady W dir) (onContextReady W' dir)"
  unfolding balance_def unlockedBalance_def address_def subaddresses_def createSubaddress_def
    setSubaddressLabel_def history_def walletExists_def onContextReady_def setWalletsDir_def Let_def static
  by (intro basics loops rows get_seen mod_seen; (rule determinedI)?; (frule seen_fields)?; (cases b)?; simp add: walletPath_def)+

lemma probing:
  assumes b
  shows "twins (status W) (status W')" "twins (probe W) (probe W')"
  unfolding status_def probe_def Let_def status_static static
  by (intro basics get_seen mod_seen; (rule determinedI)?; (frule probe_fields [OF _ assms])?; (frule seen_fields)?;
    simp add: statusLocked_def assms)+

lemma methods:
  assumes b
  shows "plain_call c \<Longrightarrow> twins (api W c) (api W' c)"
    "peer pw pw' \<Longrightarrow> twins (api W (ApiRevealSeed pw)) (api W' (ApiRevealSeed pw'))"
    "peer pw pw' \<Longrightarrow> twins (api W (ApiRevealViewKey pw)) (api W' (ApiRevealViewKey pw'))"
  by (cases c; simp add: as_result_def static; intro twin reads probing assms; fail)
    (simp_all add: as_result_def static, (intro twin reveals; assumption)+)

end

section \<open>Renaming\<close>

text \<open>
  A renaming of the secrets with its inverse. It keeps the empty text, which a missing member reads as, and makes no
  text a C string would cut short.
\<close>

definition naming :: "(string \<Rightarrow> string) \<Rightarrow> (string \<Rightarrow> string) \<Rightarrow> bool" where
  "naming \<pi> \<rho> \<longleftrightarrow> (\<forall>x. \<rho> (\<pi> x) = x) \<and> \<pi> [] = [] \<and> (\<forall>x. c_str (\<pi> (c_str x)) = \<pi> (c_str x))"

fun renamed_event :: "(string \<Rightarrow> string) \<Rightarrow> event \<Rightarrow> event" where
  "renamed_event \<pi> (WM (WM_openWallet path pw net)) = WM (WM_openWallet path (\<pi> pw) net)"
| "renamed_event \<pi> (WM (WM_createWallet path pw lang net)) = WM (WM_createWallet path (\<pi> pw) lang net)"
| "renamed_event \<pi> (WM (WM_recoveryWallet path pw seed net height rounds off)) =
     WM (WM_recoveryWallet path (\<pi> pw) (\<pi> seed) net height rounds (\<pi> off))"
| "renamed_event \<pi> (WM (WM_createWalletFromKeys path pw lang net height addr view spend rounds)) =
     WM (WM_createWalletFromKeys path (\<pi> pw) lang net height addr (\<pi> view) (\<pi> spend) rounds)"
| "renamed_event \<pi> (WM (WM_verifyWalletPassword keys pw noSpend rounds)) = WM (WM_verifyWalletPassword keys (\<pi> pw) noSpend rounds)"
| "renamed_event \<pi> (Wallet w (W_setPassword pw)) = Wallet w (W_setPassword (\<pi> pw))"
| "renamed_event \<pi> ev = ev"

text \<open>Requests and methods, whose secrets the engine reads up to the first NUL.\<close>

fun renamed_value :: "(string \<Rightarrow> string) \<Rightarrow> string \<Rightarrow> json \<Rightarrow> json" where
  "renamed_value \<pi> k (JStr v) = JStr (if secret_key k then \<pi> (c_str v) else v)"
| "renamed_value \<pi> k v = v"

fun renamed :: "(string \<Rightarrow> string) \<Rightarrow> json \<Rightarrow> json" where
  "renamed \<pi> (JObj m) = JObj (map (\<lambda>(k, v). (k, renamed_value \<pi> k v)) m)"
| "renamed \<pi> j = j"

fun renamed_call :: "(string \<Rightarrow> string) \<Rightarrow> api_call \<Rightarrow> api_call" where
  "renamed_call \<pi> (ApiRevealSeed pw) = ApiRevealSeed (\<pi> (c_str pw))"
| "renamed_call \<pi> (ApiRevealViewKey pw) = ApiRevealViewKey (\<pi> (c_str pw))"
| "renamed_call \<pi> c = c"

definition renamed_rt :: "(string \<Rightarrow> string) \<Rightarrow> rt \<Rightarrow> rt" where
  "renamed_rt \<pi> s = s\<lparr>hist := map (renamed_event \<pi>) (hist s)\<rparr>"

text \<open>The world that takes the renamed secrets for the original ones: it answers what \<open>W\<close> answers with the inverse applied.\<close>

definition heard_as :: "(string \<Rightarrow> string) \<Rightarrow> (trace \<Rightarrow> event \<Rightarrow> 'a) \<Rightarrow> trace \<Rightarrow> event \<Rightarrow> 'a" where
  "heard_as \<rho> ans h ev = ans (map (renamed_event \<rho>) h) (renamed_event \<rho> ev)"

definition renamed_world :: "(string \<Rightarrow> string) \<Rightarrow> world \<Rightarrow> world" where
  "renamed_world \<rho> W =
     \<lparr>w_throw = heard_as \<rho> (w_throw W), w_bool = heard_as \<rho> (w_bool W), w_int = heard_as \<rho> (w_int W),
       w_u64 = heard_as \<rho> (w_u64 W), w_handle = heard_as \<rho> (w_handle W), w_str = heard_as \<rho> (w_str W),
       w_json = heard_as \<rho> (w_json W), w_os = (\<lambda>h. w_os W (map (renamed_event \<rho>) h)),
       w_what = w_what W, w_has_notify = w_has_notify W, w_version = w_version W\<rparr>"

lemma renamed_back: "naming \<pi> \<rho> \<Longrightarrow> renamed_event \<rho> (renamed_event \<pi> ev) = ev"
  by (cases "(\<pi>, ev)" rule: renamed_event.cases) (simp_all add: naming_def)

lemma renamed_plain: "\<not> carries_secret ev \<Longrightarrow> renamed_event \<pi> ev = ev"
  by (cases "(\<pi>, ev)" rule: renamed_event.cases) simp_all

definition peers :: "(string \<Rightarrow> string) \<Rightarrow> string \<Rightarrow> string \<Rightarrow> bool" where
  "peers \<pi> a a' \<longleftrightarrow> c_str a' = \<pi> (c_str a)"

lemma naming_indistinct:
  assumes "naming \<pi> \<rho>"
  shows "indistinct W (renamed_world \<rho> W) (\<lambda>h h'. h' = map (renamed_event \<pi>) h) (\<lambda>ev ev'. ev' = renamed_event \<pi> ev) (peers \<pi>)"
proof -
  have undo: "map (renamed_event \<rho>) (map (renamed_event \<pi>) h) = h" for h
    by (induction h) (simp_all add: renamed_back [OF assms])
  show ?thesis
    by unfold_locales (simp_all add: renamed_world_def heard_as_def undo renamed_back [OF assms] renamed_plain peers_def del: map_map)
qed

lemma renamed_find: "map_of (map (\<lambda>(k, v). (k, renamed_value \<pi> k v)) m) k = map_option (renamed_value \<pi> k) (map_of m k)"
  by (induction m) auto

lemma renamed_other: "\<not> secret_key k \<Longrightarrow> renamed_value \<pi> k v = v"
  by (cases v) simp_all

lemma renamed_asked:
  assumes "naming \<pi> \<rho>"
  shows "asked what (peers \<pi>) p (renamed \<pi> p)"
proof (cases p)
  case (JObj m)
  have str: "rel_sum (=) (peers \<pi>) (as_str what v) (as_str what (renamed_value \<pi> k v))" if "secret_key k" for k v
    using assms that by (cases v) (simp_all add: peers_def naming_def)
  have "peers \<pi> [] []" using assms by (simp add: peers_def naming_def c_str_def)
  then show ?thesis
    by (auto simp: asked_def JObj value_simps renamed_find renamed_other str split: option.split)
qed (simp_all add: asked_def value_str_def value_with_def)

section \<open>Every operation under a renaming\<close>

lemma alike_renamed: "alike True (\<lambda>h h'. h' = map (renamed_event \<pi>) h) s s' \<longleftrightarrow> s' = renamed_rt \<pi> s"
  by (cases s; cases s') (auto simp: alike_def seen_def renamed_rt_def)

lemma renamed_twins:
  assumes "twin (alike True (\<lambda>h h'. h' = map (renamed_event \<pi>) h)) (=) m m'"
  shows "m' (renamed_rt \<pi> s) = map_prod id (renamed_rt \<pi>) (m s)"
  using twin_run [OF assms, unfolded alike_renamed, OF refl, of s] by (simp add: prod_eq_iff)

lemma opaque:
  assumes "naming \<pi> \<rho>"
  shows "run_job (renamed_world \<rho> W) k (renamed \<pi> p) (renamed_rt \<pi> s) = map_prod id (renamed_rt \<pi>) (run_job W k p s)"
    "api (renamed_world \<rho> W) (renamed_call \<pi> c) (renamed_rt \<pi> s) = map_prod id (renamed_rt \<pi>) (api W c s)"
    "idle (renamed_world \<rho> W) (renamed_rt \<pi> s) = map_prod id (renamed_rt \<pi>) (idle W s)"
    "probe (renamed_world \<rho> W) (renamed_rt \<pi> s) = map_prod id (renamed_rt \<pi>) (probe W s)"
    "announce (renamed_world \<rho> W) i st (renamed_rt \<pi> s) = map_prod id (renamed_rt \<pi>) (announce W i st s)"
    "onContextReady (renamed_world \<rho> W) dir (renamed_rt \<pi> s) = map_prod id (renamed_rt \<pi>) (onContextReady W dir s)"
    "shutdown_close (renamed_world \<rho> W) (renamed_rt \<pi> s) = map_prod id (renamed_rt \<pi>) (shutdown_close W s)"
proof -
  note ind = naming_indistinct [OF assms, of W]
  have pw: "peers \<pi> pw (\<pi> (c_str pw))" for pw using assms by (simp add: peers_def naming_def)
  show "api (renamed_world \<rho> W) (renamed_call \<pi> c) (renamed_rt \<pi> s) = map_prod id (renamed_rt \<pi>) (api W c s)"
    by (cases c; simp only: renamed_call.simps; intro renamed_twins indistinct.methods [OF ind] pw; simp)
qed (intro renamed_twins indistinct.jobs [OF naming_indistinct [OF assms]] indistinct.others [OF naming_indistinct [OF assms]]
  indistinct.probing [OF naming_indistinct [OF assms]] indistinct.reads [OF naming_indistinct [OF assms]]
  indistinct.closes [OF naming_indistinct [OF assms]] renamed_asked [OF assms] TrueI)+

end
