(* ===== verification/Locks.thy ===== *)
theory Locks
  imports Secrecy Isolation
begin

text \<open>
  The threads of the module together: each with the actions of its operations, one after the other, interleaved in any
  order the two locks allow. No schedule gets stuck, and what changes the wallet runs alone.
\<close>

section \<open>The discipline of an operation, from any history\<close>

text \<open>The checker forwards, oldest event first.\<close>

primrec go :: "bool \<Rightarrow> hold \<Rightarrow> trace \<Rightarrow> hold option" where
  "go strict h [] = Some h"
| "go strict h (ev # evs) = (if allowed strict h ev then go strict (after ev h) evs else None)"

lemma go_append: "go strict h (evs @ rest) = (case go strict h evs of None \<Rightarrow> None | Some h' \<Rightarrow> go strict h' rest)"
  by (induction evs arbitrary: h) auto

lemma protocol_append:
  "protocol strict (evs @ base) = (case protocol strict base of None \<Rightarrow> None | Some h \<Rightarrow> go strict h (rev evs))"
  by (induction evs) (auto simp: go_append split: option.splits)

text \<open>A world that goes on from \<open>new\<close> as \<open>W\<close> goes on from \<open>old\<close>.\<close>

definition onwards :: "trace \<Rightarrow> trace \<Rightarrow> (trace \<Rightarrow> 'a) \<Rightarrow> trace \<Rightarrow> 'a" where
  "onwards old new ans h = ans (take (length h - length new) h @ old)"

definition rebased :: "trace \<Rightarrow> trace \<Rightarrow> world \<Rightarrow> world" where
  "rebased old new W =
     \<lparr>w_throw = onwards old new (w_throw W), w_bool = onwards old new (w_bool W), w_int = onwards old new (w_int W),
       w_u64 = onwards old new (w_u64 W), w_handle = onwards old new (w_handle W), w_str = onwards old new (w_str W),
       w_json = onwards old new (w_json W), w_os = onwards old new (w_os W),
       w_what = w_what W, w_has_notify = w_has_notify W, w_version = w_version W\<rparr>"

definition same_since :: "trace \<Rightarrow> trace \<Rightarrow> trace \<Rightarrow> trace \<Rightarrow> bool" where
  "same_since old new h h' \<longleftrightarrow> (\<exists>evs. h = evs @ old \<and> h' = evs @ new)"

lemma rebased_indistinct: "indistinct W (rebased old new W) (same_since old new) (=) (=)"
proof unfold_locales
  fix h h' and ev ev' :: event assume "same_since old new h h'" "ev = ev'"
  then show "same_since old new (ev # h) (ev' # h')"
    by (auto simp: same_since_def intro: exI [of _ "ev' # evs" for evs])
qed (auto simp: same_since_def rebased_def onwards_def)

text \<open>A history after which nothing is held and the refresh of \<open>z\<close> is paused.\<close>

fun held_back :: "handle option \<Rightarrow> trace" where
  "held_back None = []"
| "held_back (Some w) = [Unlock HandleMu, Wallet w W_pauseRefresh, Lock HandleMu Exclusive]"

lemma held_back_protocol: "protocol strict (held_back z) = Some \<lparr>h_handle = None, h_state = False, h_paused = z\<rparr>"
  by (cases z) (simp_all add: free_def)

lemma acts_go:
  assumes "twin (alike True (same_since (hist s) (held_back z))) (=) m m'" "keeps (inside strict None False UNIV) m'"
    and "m s = (r, t)" "r \<noteq> Inl Terminated" "hist t = evs @ hist s"
  shows "\<exists>z'. go strict \<lparr>h_handle = None, h_state = False, h_paused = z\<rparr> (rev evs) = Some \<lparr>h_handle = None, h_state = False, h_paused = z'\<rparr>"
proof -
  let ?s = "s\<lparr>hist := held_back z\<rparr>"
  have R: "alike True (same_since (hist s) (held_back z)) s ?s"
    by (simp add: alike_def same_since_def)
  from twin_run [OF assms(1) R] assms(3,5) obtain t' where t': "m' ?s = (r, t')" "hist t' = evs @ held_back z"
    by (cases "m' ?s") (auto simp: alike_def same_since_def)
  from keeps_inside [OF assms(2) _ _ _ t'(1) assms(4)]
  obtain z' where "protocol strict (hist t') = Some \<lparr>h_handle = None, h_state = False, h_paused = z'\<rparr>"
    using held_back_protocol [of strict z] by fastforce
  then show ?thesis by (simp add: t'(2) protocol_append held_back_protocol)
qed

section \<open>What a thread does\<close>

text \<open>
  The actions of one operation, newest first, whatever the world answers and whatever the state it starts from. The
  worker's jobs keep the loose discipline, everything else the strict one too.
\<close>

inductive acts :: "bool \<Rightarrow> trace \<Rightarrow> bool" where
  "run_job W k p s = (r, t) \<Longrightarrow> r \<noteq> Inl Terminated \<Longrightarrow> hist t = evs @ hist s \<Longrightarrow> acts False evs"
| "api W c s = (r, t) \<Longrightarrow> r \<noteq> Inl Terminated \<Longrightarrow> hist t = evs @ hist s \<Longrightarrow> acts strict evs"
| "idle W s = (r, t) \<Longrightarrow> r \<noteq> Inl Terminated \<Longrightarrow> hist t = evs @ hist s \<Longrightarrow> acts strict evs"
| "probe W s = (r, t) \<Longrightarrow> r \<noteq> Inl Terminated \<Longrightarrow> hist t = evs @ hist s \<Longrightarrow> acts strict evs"
| "announce W i st s = (r, t) \<Longrightarrow> r \<noteq> Inl Terminated \<Longrightarrow> hist t = evs @ hist s \<Longrightarrow> acts strict evs"
| "onContextReady W dir s = (r, t) \<Longrightarrow> r \<noteq> Inl Terminated \<Longrightarrow> hist t = evs @ hist s \<Longrightarrow> acts strict evs"
| "shutdown_close W s = (r, t) \<Longrightarrow> r \<noteq> Inl Terminated \<Longrightarrow> hist t = evs @ hist s \<Longrightarrow> acts strict evs"

text \<open>One operation after the other, oldest action first.\<close>

inductive life :: "bool \<Rightarrow> trace \<Rightarrow> bool" where
  "life strict []"
| "acts strict evs \<Longrightarrow> life strict rest \<Longrightarrow> life strict (rev evs @ rest)"

lemma api_twins: "indistinct W W' H (=) (=) \<Longrightarrow> twin (alike True H) (=) (api W c) (api W' c)"
  by (cases c) (auto simp del: api.simps intro: indistinct.methods)

lemma acts_disciplined:
  assumes "acts strict evs"
  shows "\<exists>z'. go strict \<lparr>h_handle = None, h_state = False, h_paused = z\<rparr> (rev evs) = Some \<lparr>h_handle = None, h_state = False, h_paused = z'\<rparr>"
  using assms
proof cases
  case (1 W k p s r t)
  show ?thesis
    using 1(1) acts_go [OF indistinct.jobs [OF rebased_indistinct asked_same] disc_run_job 1(2-4)] by simp
next
  case (2 W c s r t)
  show ?thesis
    by (rule acts_go [OF api_twins [OF rebased_indistinct] disc_api 2])
next
  case (3 W s r t)
  show ?thesis
    by (rule acts_go [OF indistinct.others(1) [OF rebased_indistinct] disc_idle 3])
next
  case (4 W s r t)
  show ?thesis
    by (rule acts_go [OF indistinct.probing(2) [OF rebased_indistinct TrueI] disc_probe 4])
next
  case (5 W i st s r t)
  show ?thesis
    by (rule acts_go [OF indistinct.others(2) [OF rebased_indistinct] disc_announce 5])
next
  case (6 W dir s r t)
  show ?thesis
    by (rule acts_go [OF indistinct.reads(9) [OF rebased_indistinct] disc_context 6])
next
  case (7 W s r t)
  show ?thesis
    by (rule acts_go [OF indistinct.closes(3) [OF rebased_indistinct] disc_shutdown 7])
qed

lemma life_disciplined:
  "life strict evs \<Longrightarrow> \<exists>z'. go strict \<lparr>h_handle = None, h_state = False, h_paused = z\<rparr> evs = Some \<lparr>h_handle = None, h_state = False, h_paused = z'\<rparr>"
proof (induction arbitrary: z rule: life.induct)
  case (2 strict evs rest)
  from acts_disciplined [OF 2(1), of z] 2(3) show ?case by (fastforce simp: go_append)
qed simp

section \<open>The threads and the locks\<close>

text \<open>A thread: its discipline, what it holds, and what it has yet to do.\<close>

record thread =
  t_strict :: bool
  t_hold :: hold
  t_rest :: trace

definition thread_of :: "bool \<times> trace \<Rightarrow> thread" where
  "thread_of x = \<lparr>t_strict = fst x, t_hold = free, t_rest = snd x\<rparr>"

definition others :: "nat \<Rightarrow> thread list \<Rightarrow> hold list" where
  "others i ts = map t_hold (take i ts @ drop (Suc i) ts)"

text \<open>The handle is held by several readers or by one writer, the state lock by one thread.\<close>

fun granted :: "hold list \<Rightarrow> event \<Rightarrow> bool" where
  "granted hs (Lock HandleMu Exclusive) = list_all (\<lambda>h. h_handle h = None) hs"
| "granted hs (Lock HandleMu Shared) = list_all (\<lambda>h. h_handle h \<noteq> Some Exclusive) hs"
| "granted hs (Lock StateMu md) = list_all (\<lambda>h. \<not> h_state h) hs"
| "granted hs ev = True"

inductive sched :: "thread list \<Rightarrow> thread list \<Rightarrow> bool" where
  "i < length ts \<Longrightarrow> t_rest (ts ! i) = ev # rest \<Longrightarrow> granted (others i ts) ev \<Longrightarrow>
   sched ts (ts[i := (ts ! i)\<lparr>t_hold := after ev (t_hold (ts ! i)), t_rest := rest\<rparr>])"

definition at_rest :: "hold \<Rightarrow> bool" where
  "at_rest h \<longleftrightarrow> h_handle h = None \<and> \<not> h_state h"

definition disciplined :: "thread \<Rightarrow> bool" where
  "disciplined t \<longleftrightarrow> (\<exists>h. go (t_strict t) (t_hold t) (t_rest t) = Some h \<and> at_rest h)"

text \<open>No two threads hold what only one may.\<close>

definition compatible :: "hold \<Rightarrow> hold \<Rightarrow> bool" where
  "compatible h h' \<longleftrightarrow> \<not> (h_state h \<and> h_state h') \<and> (h_handle h = Some Exclusive \<longrightarrow> h_handle h' = None) \<and>
     (h_handle h' = Some Exclusive \<longrightarrow> h_handle h = None)"

definition exclusive :: "thread list \<Rightarrow> bool" where
  "exclusive ts \<longleftrightarrow> (\<forall>i<length ts. \<forall>j<length ts. i \<noteq> j \<longrightarrow> compatible (t_hold (ts ! i)) (t_hold (ts ! j)))"

lemma others_mem:
  assumes "j < length ts" "i \<noteq> j"
  shows "t_hold (ts ! j) \<in> set (others i ts)"
proof (cases "j < i")
  case True
  then have "ts ! j \<in> set (take i ts)" using assms(1) by (auto simp: in_set_conv_nth intro: exI [of _ j])
  then show ?thesis by (simp add: others_def)
next
  case False
  then have "ts ! j \<in> set (drop (Suc i) ts)"
    using assms by (auto simp: in_set_conv_nth intro: exI [of _ "j - Suc i"])
  then show ?thesis by (simp add: others_def)
qed

lemma compatible_sym: "compatible h h' \<Longrightarrow> compatible h' h"
  by (auto simp: compatible_def)

lemma granted_compatible:
  assumes "granted hs ev" "h' \<in> set hs" "compatible h h'"
  shows "compatible (after ev h) h'"
proof (cases "plain ev")
  case True
  then have "h_handle (after ev h) = h_handle h" "h_state (after ev h) = h_state h"
    by (subst after_plain; simp)+
  with assms(3) show ?thesis by (simp add: compatible_def)
next
  case False
  then obtain mu md where "ev = Lock mu md \<or> ev = Unlock mu" by (cases ev) auto
  with assms show ?thesis by (cases mu; cases md) (auto simp: compatible_def list_all_iff)
qed

lemma sched_disciplined:
  assumes "sched ts ts'" "\<forall>t\<in>set ts. disciplined t"
  shows "\<forall>t\<in>set ts'. disciplined t"
  using assms
proof cases
  case (1 i ev rest)
  have "disciplined (ts ! i)" using assms(2) 1(2) by simp
  then have "disciplined ((ts ! i)\<lparr>t_hold := after ev (t_hold (ts ! i)), t_rest := rest\<rparr>)"
    using 1(3) by (auto simp: disciplined_def split: if_splits)
  with assms(2) show ?thesis unfolding 1(1) by (auto dest: set_update_subset_insert [THEN subsetD])
qed

lemma sched_exclusive:
  assumes "sched ts ts'" "exclusive ts"
  shows "exclusive ts'"
  using assms
proof cases
  case (1 i ev rest)
  have "compatible (after ev (t_hold (ts ! i))) (t_hold (ts ! j))" if "j < length ts" "i \<noteq> j" for j
    using granted_compatible [OF 1(4) others_mem [OF that]] assms(2) that 1(2) by (auto simp: exclusive_def)
  moreover from this have "compatible (t_hold (ts ! j)) (after ev (t_hold (ts ! i)))" if "j < length ts" "i \<noteq> j" for j
    using that compatible_sym by blast
  ultimately show ?thesis
    using assms(2) 1(2) unfolding 1(1) exclusive_def by (auto simp: nth_list_update)
qed

definition set_off :: "(bool \<times> trace) list \<Rightarrow> thread list" where
  "set_off lives = map thread_of lives"

lemma scheduled:
  assumes "sched\<^sup>*\<^sup>* (set_off lives) ts" "\<forall>(strict, evs)\<in>set lives. life strict evs"
  shows "(\<forall>t\<in>set ts. disciplined t) \<and> exclusive ts"
  using assms(1)
proof (induction rule: rtranclp_induct)
  case base
  have "disciplined (thread_of (strict, evs))" if "life strict evs" for strict evs
    using life_disciplined [OF that, of None] by (auto simp: disciplined_def thread_of_def free_def at_rest_def)
  with assms(2) show ?case
    by (auto simp: set_off_def exclusive_def thread_of_def compatible_def free_def)
next
  case (step ts ts')
  then show ?case using sched_disciplined sched_exclusive by blast
qed

section \<open>No deadlock\<close>

lemma holder_moves:
  assumes "disciplined t" "\<not> at_rest (t_hold t)"
  obtains ev rest where "t_rest t = ev # rest" "\<And>md. ev \<noteq> Lock HandleMu md"
    "h_state (t_hold t) \<Longrightarrow> (\<And>md. ev \<noteq> Lock StateMu md)"
proof (cases "t_rest t")
  case Nil
  with assms show thesis by (simp add: disciplined_def)
next
  case (Cons ev rest)
  with assms(1) have "allowed (t_strict t) (t_hold t) ev" by (auto simp: disciplined_def split: if_splits)
  with assms(2) show thesis by (intro that [OF Cons]) (auto simp: at_rest_def)
qed

text \<open>
  A thread that asks for a lock no one else holds. It may be given the lock whatever order the requests are served in.
\<close>

fun uncontended :: "hold list \<Rightarrow> event \<Rightarrow> bool" where
  "uncontended hs (Lock HandleMu md) = list_all (\<lambda>h. h_handle h = None) hs"
| "uncontended hs (Lock StateMu md) = list_all (\<lambda>h. \<not> h_state h) hs"
| "uncontended hs ev = True"

lemma uncontended_granted: "uncontended hs ev \<Longrightarrow> granted hs ev"
  by (cases "(hs, ev)" rule: granted.cases) (auto simp: list_all_iff)

lemma others_all: "(\<And>t. t \<in> set ts \<Longrightarrow> P (t_hold t)) \<Longrightarrow> list_all P (others i ts)"
  by (auto simp: others_def list_all_iff dest: in_set_takeD in_set_dropD)

lemma someone_moves:
  assumes "\<forall>t\<in>set ts. disciplined t" "\<exists>t\<in>set ts. t_rest t \<noteq> []"
  shows "\<exists>i<length ts. \<exists>ev rest. t_rest (ts ! i) = ev # rest \<and> uncontended (others i ts) ev"
proof (cases "\<exists>t\<in>set ts. h_state (t_hold t)")
  case True
  then obtain i where i: "i < length ts" "h_state (t_hold (ts ! i))" by (auto simp: in_set_conv_nth)
  have "disciplined (ts ! i)" "\<not> at_rest (t_hold (ts ! i))" using assms(1) i by (auto simp: at_rest_def)
  from holder_moves [OF this] obtain ev rest where ev: "t_rest (ts ! i) = ev # rest" "\<And>md. ev \<noteq> Lock HandleMu md" "\<And>md. ev \<noteq> Lock StateMu md"
    using i(2) by metis
  then have "uncontended (others i ts) ev" by (cases "(others i ts, ev)" rule: uncontended.cases) auto
  with i ev show ?thesis by blast
next
  case free: False
  show ?thesis
  proof (cases "\<exists>t\<in>set ts. h_handle (t_hold t) \<noteq> None")
    case True
    then obtain i where i: "i < length ts" "h_handle (t_hold (ts ! i)) \<noteq> None" by (auto simp: in_set_conv_nth)
    have "disciplined (ts ! i)" "\<not> at_rest (t_hold (ts ! i))" using assms(1) i by (auto simp: at_rest_def)
    from holder_moves [OF this] obtain ev rest where ev: "t_rest (ts ! i) = ev # rest" "\<And>md. ev \<noteq> Lock HandleMu md" by metis
    then have "uncontended (others i ts) ev"
      using free by (cases "(others i ts, ev)" rule: uncontended.cases) (auto intro: others_all)
    with i ev show ?thesis by blast
  next
    case False
    from assms(2) obtain i where i: "i < length ts" "t_rest (ts ! i) \<noteq> []" by (auto simp: in_set_conv_nth)
    then obtain ev rest where ev: "t_rest (ts ! i) = ev # rest" by (cases "t_rest (ts ! i)") auto
    have "uncontended (others i ts) ev"
      using free False by (cases "(others i ts, ev)" rule: uncontended.cases) (auto intro: others_all)
    with i ev show ?thesis by blast
  qed
qed

section \<open>What every schedule has\<close>

definition left_over :: "thread list \<Rightarrow> nat" where
  "left_over ts = sum_list (map (\<lambda>t. length (t_rest t)) ts)"

lemma sched_less: "sched ts ts' \<Longrightarrow> left_over ts' < left_over ts"
proof (induction rule: sched.induct)
  case (1 i ts ev rest)
  then show ?case
    using elem_le_sum_list [of i "map (\<lambda>t. length (t_rest t)) ts"] by (simp add: left_over_def map_update sum_list_update)
qed

text \<open>C15. The module does not deadlock: let any number of threads each run any operations of the module one after the other, with any
  answers of the world, and let their actions interleave in any order the two locks allow. While any of them has something to do,
  one of them can go on, and its next action waits for no lock that another thread holds, so the order in which the locks
  serve waiting threads does not matter; every action is one fewer left, so all of them come to their end.\<close>

theorem no_deadlock:
  assumes "\<forall>(strict, evs)\<in>set lives. life strict evs" "sched\<^sup>*\<^sup>* (set_off lives) ts"
  shows "(\<forall>t\<in>set ts. t_rest t = []) \<or>
    (\<exists>i<length ts. \<exists>ev rest ts'. t_rest (ts ! i) = ev # rest \<and> uncontended (others i ts) ev \<and> sched ts ts' \<and>
       ts' ! i = (ts ! i)\<lparr>t_hold := after ev (t_hold (ts ! i)), t_rest := rest\<rparr> \<and> left_over ts' < left_over ts)"
proof (cases "\<forall>t\<in>set ts. t_rest t = []")
  case False
  from someone_moves [of ts] scheduled [OF assms(2,1)] False
  obtain i ev rest where i: "i < length ts" "t_rest (ts ! i) = ev # rest" "uncontended (others i ts) ev" by blast
  let ?ts = "ts[i := (ts ! i)\<lparr>t_hold := after ev (t_hold (ts ! i)), t_rest := rest\<rparr>]"
  have "sched ts ?ts" by (rule sched.intros [OF i(1,2) uncontended_granted [OF i(3)]])
  with i sched_less [OF this] show ?thesis
    by (intro disjI2 exI [of _ i] conjI exI [of _ ev] exI [of _ rest] exI [of _ ?ts]) simp_all
qed simp

text \<open>Calls that change what the wallet holds or spend from it, and calls on the wallet and on what it hands out.\<close>

fun alters :: "event \<Rightarrow> bool" where
  "alters (Wallet w (W_createTransaction a b c d e f g i)) = True"
| "alters (Wallet w (W_setPassword p)) = True"
| "alters (Wallet w (W_addSubaddress a l)) = True"
| "alters (Wallet w (W_setSubaddressLabel a i l)) = True"
| "alters (Wallet w W_rescanBlockchainAsync) = True"
| "alters (PendingTx pt c) = True"
| "alters ev = False"

fun touches :: "event \<Rightarrow> bool" where
  "touches (Wallet w c) = True"
| "touches (WalletRead w c) = True"
| "touches (PendingTx pt c) = True"
| "touches (TxHistory t c) = True"
| "touches (TxInfo t c) = True"
| "touches ev = False"

lemma alters_exclusive: "allowed strict h ev \<Longrightarrow> alters ev \<Longrightarrow> h_handle h = Some Exclusive"
proof (induction ev rule: alters.induct)
  case (6 pt c)
  then show ?case by (cases c) simp_all
qed simp_all

lemma touches_held:
  assumes "allowed True h ev" "touches ev"
  shows "h_handle h \<noteq> None"
proof (cases ev)
  case (Wallet w c)
  with assms show ?thesis by (cases "(True, h, w, c)" rule: wallet_call_ok.cases) auto
next
  case (PendingTx pt c)
  with assms show ?thesis using alters_exclusive [of True h ev] by simp
qed (use assms in auto)

text \<open>C16. What changes the wallet runs alone: in any interleaving of any threads running the module's operations, while one is at a
  call that builds, describes or sends a transaction, adds or renames a subaddress, sets the password or starts a rescan,
  it holds the handle and no other thread does, and no method, idle turn or probe of another thread is at a call on the wallet,
  on a transaction or on its history.\<close>

theorem changes_run_alone:
  assumes "\<forall>(strict, evs)\<in>set lives. life strict evs" "sched\<^sup>*\<^sup>* (set_off lives) ts"
    and "i < length ts" "j < length ts" "i \<noteq> j" "t_rest (ts ! i) = ev # rest" "alters ev"
  shows "h_handle (t_hold (ts ! i)) = Some Exclusive \<and> h_handle (t_hold (ts ! j)) = None \<and>
    (t_strict (ts ! j) \<longrightarrow> (\<forall>ev' rest'. t_rest (ts ! j) = ev' # rest' \<longrightarrow> \<not> touches ev'))"
proof -
  have d: "\<forall>t\<in>set ts. disciplined t" and x: "exclusive ts" using scheduled [OF assms(2,1)] by blast+
  have ok: "allowed (t_strict (ts ! k)) (t_hold (ts ! k)) ev'" if "k < length ts" "t_rest (ts ! k) = ev' # rest'" for k ev' rest'
  proof -
    have "disciplined (ts ! k)" using d that(1) by simp
    with that(2) show ?thesis by (simp add: disciplined_def split: if_splits)
  qed
  have i: "h_handle (t_hold (ts ! i)) = Some Exclusive" using alters_exclusive [OF ok [OF assms(3,6)] assms(7)] .
  have "compatible (t_hold (ts ! i)) (t_hold (ts ! j))" using x assms(3-5) unfolding exclusive_def by blast
  with i have j: "h_handle (t_hold (ts ! j)) = None" by (simp add: compatible_def)
  have "\<not> touches ev'" if "t_strict (ts ! j)" "t_rest (ts ! j) = ev' # rest'" for ev' rest'
  proof -
    have "allowed True (t_hold (ts ! j)) ev'" using ok [OF assms(4) that(2)] that(1) by simp
    with touches_held j show ?thesis by blast
  qed
  with i j show ?thesis by blast
qed

section \<open>A sample schedule\<close>

text \<open>The host adds a subaddress on one thread and asks for the balance on another.\<close>

definition adding :: trace where
  "adding = [Lock HandleMu Exclusive, Wallet 1 (W_addSubaddress 0 ''a''), WalletRead 1 (W_numSubaddresses 0), Unlock HandleMu]"

definition asking :: trace where
  "asking = [Lock HandleMu Shared, WalletRead 1 (W_balance 0), Unlock HandleMu]"

lemma sample_lives: "life True adding" "life True asking"
proof -
  let ?s = "init_rt\<lparr>m_wallet := 1\<rparr>"
  have q: "w_bool quiet_world tr ev" "w_throw quiet_world tr ev = None" "w_u64 quiet_world tr ev = 0" "hist init_rt = []" for tr ev
    by (simp_all add: quiet_world_def init_rt_def)
  have c: "index32 0 = 0" "c_str ''a'' = ''a''" by code_simp+
  have "\<exists>r t. api quiet_world (ApiCreateSubaddress 0 ''a'') ?s = (Inr r, t) \<and> hist t = rev adding @ hist ?s"
    by (simp add: as_result_def createSubaddress_def runs run_events q c adding_def fromJson_err)
  then have "acts True (rev adding)" using acts.intros(2) by blast
  from life.intros(2) [OF this life.intros(1)] show "life True adding" by simp
  have "\<exists>r t. api quiet_world (ApiBalance 0) ?s = (Inr r, t) \<and> hist t = rev asking @ hist ?s"
    by (simp add: balance_def try_shared_def runs run_events q c asking_def)
  then have "acts True (rev asking)" using acts.intros(2) by blast
  from life.intros(2) [OF this life.intros(1)] show "life True asking" by simp
qed

definition sample_threads :: "thread list" where
  "sample_threads = [thread_of (True, adding)\<lparr>t_hold := after (Lock HandleMu Exclusive) free, t_rest := tl adding\<rparr>, thread_of (True, asking)]"

lemma sample_scheduled: "sched\<^sup>*\<^sup>* (set_off [(True, adding), (True, asking)]) sample_threads"
proof -
  have "sched (set_off [(True, adding), (True, asking)]) sample_threads"
    using sched.intros [of 0 "set_off [(True, adding), (True, asking)]" "Lock HandleMu Exclusive" "tl adding"]
    by (simp add: set_off_def thread_of_def adding_def others_def free_def sample_threads_def)
  then show ?thesis by blast
qed

lemma no_deadlock_witness:
  "\<exists>i<2. \<exists>ev rest ts'. t_rest (sample_threads ! i) = ev # rest \<and> uncontended (others i sample_threads) ev \<and> sched sample_threads ts'"
proof -
  have "\<not> (\<forall>t\<in>set sample_threads. t_rest t = [])" by (simp add: sample_threads_def adding_def)
  moreover have "length sample_threads = 2" by (simp add: sample_threads_def)
  ultimately show ?thesis
    using no_deadlock [OF _ sample_scheduled] sample_lives by auto
qed

lemma changes_run_alone_witness:
  "t_rest (sample_threads ! 0) = Wallet 1 (W_addSubaddress 0 ''a'') # tl (tl adding) \<and> h_handle (t_hold (sample_threads ! 1)) = None \<and>
     t_rest (sample_threads ! 1) = Lock HandleMu Shared # tl asking \<and> \<not> touches (Lock HandleMu Shared)"
proof -
  have l: "length sample_threads = 2" "t_strict (sample_threads ! 1)" by (simp_all add: sample_threads_def thread_of_def)
  have r: "t_rest (sample_threads ! 0) = Wallet 1 (W_addSubaddress 0 ''a'') # tl (tl adding)" by (simp add: sample_threads_def adding_def)
  have a: "t_rest (sample_threads ! 1) = Lock HandleMu Shared # tl asking" by (simp add: sample_threads_def thread_of_def asking_def)
  show ?thesis
    using changes_run_alone [OF _ sample_scheduled, of 0 1 "Wallet 1 (W_addSubaddress 0 ''a'')" "tl (tl adding)"] sample_lives l r a by simp
qed

end
