(* ===== verification/Discretion.thy ===== *)
theory Discretion
  imports Secrecy
begin

text \<open>
  Secrets over whole runs of the module: with every password, seed and key renamed, each run has a counterpart, step by
  step, in which the host is told the same.
\<close>

section \<open>Renamed requests\<close>

definition reworded :: "(string \<Rightarrow> string) \<Rightarrow> tickets \<Rightarrow> tickets" where
  "reworded \<pi> t = t\<lparr>heap := (\<lambda>q. (heap t q)\<lparr>j_params := renamed \<pi> (j_params (heap t q))\<rparr>)\<rparr>"

fun reworded_call :: "(string \<Rightarrow> string) \<Rightarrow> tcall \<Rightarrow> tcall" where
  "reworded_call \<pi> (CStart dir kind params draws) = CStart dir kind (renamed \<pi> params) draws"
| "reworded_call \<pi> c = c"

lemma renamed_object: "is_object (renamed \<pi> p) = is_object p"
  by (cases p) simp_all

lemma reworded_reads:
  "j_id (heap (reworded \<pi> t) q) = j_id (heap t q)" "j_receipt (heap (reworded \<pi> t) q) = j_receipt (heap t q)"
  "j_kind (heap (reworded \<pi> t) q) = j_kind (heap t q)" "j_state (heap (reworded \<pi> t) q) = j_state (heap t q)"
  "j_error (heap (reworded \<pi> t) q) = j_error (heap t q)" "j_params (heap (reworded \<pi> t) q) = renamed \<pi> (j_params (heap t q))"
  "j_result (heap (reworded \<pi> t) q) = j_result (heap t q)" "j_progress (heap (reworded \<pi> t) q) = j_progress (heap t q)"
  "j_acked (heap (reworded \<pi> t) q) = j_acked (heap t q)" "heap_top (reworded \<pi> t) = heap_top t" "m_jobs (reworded \<pi> t) = m_jobs t"
  "m_queue (reworded \<pi> t) = m_queue t" "m_stop (reworded \<pi> t) = m_stop t" "m_nextId (reworded \<pi> t) = m_nextId t"
  by (simp_all add: reworded_def)

lemma reworded_update:
  "(\<And>j x. g (j\<lparr>j_params := x\<rparr>) = (g j)\<lparr>j_params := x\<rparr>) \<Longrightarrow> (\<And>j. j_params (g j) = j_params j) \<Longrightarrow>
   update_job p g (reworded \<pi> t) = reworded \<pi> (update_job p g t)"
  by (auto simp: reworded_def fun_eq_iff)

lemma reworded_fields:
  "(reworded \<pi> t)\<lparr>m_queue := q\<rparr> = reworded \<pi> (t\<lparr>m_queue := q\<rparr>)" "(reworded \<pi> t)\<lparr>m_stop := b\<rparr> = reworded \<pi> (t\<lparr>m_stop := b\<rparr>)"
  "(reworded \<pi> t)\<lparr>m_jobs := m\<rparr> = reworded \<pi> (t\<lparr>m_jobs := m\<rparr>)" "(reworded \<pi> t)\<lparr>m_nextId := n\<rparr> = reworded \<pi> (t\<lparr>m_nextId := n\<rparr>)"
  by (simp_all add: reworded_def)

section \<open>The tickets\<close>

lemma reworded_find: "find_job (reworded \<pi> t) i c = find_job t i c"
  by (simp add: find_job_def reworded_reads split: option.split)

lemma reworded_lookup:
  "find_job (reworded \<pi> t) i c = find_job t i c" "jobStatus i c (reworded \<pi> t) = jobStatus i c t" "jobResult i c (reworded \<pi> t) = jobResult i c t"
  by (cases "find_job t i c"; simp add: jobStatus_def jobResult_def reworded_find reworded_reads Let_def)+

lemma reworded_turn: "next_turn (reworded \<pi> t) = map_prod id (reworded \<pi>) (next_turn t)"
  by (simp add: next_turn_def reworded_reads reworded_fields reworded_update split: list.split)

lemma reworded_settle: "settle wh p out (reworded \<pi> t) = map_prod id (reworded \<pi>) (settle wh p out t)"
  by (simp add: settle_def runs reworded_update reworded_reads split: sum.split prod.split)

lemma reworded_make:
  "make_job (j\<lparr>j_params := renamed \<pi> (j_params j)\<rparr>) (reworded \<pi> t) = map_prod id (reworded \<pi>) (make_job j t)"
  by (auto simp: make_job_def reworded_def fun_eq_iff)

lemma reworded_enqueue: "enqueue p (reworded \<pi> t) = reworded \<pi> (enqueue p t)"
  by (simp add: enqueue_def Let_def reworded_reads reworded_fields reworded_update)

lemma reworded_start: "startJob dir kind (renamed \<pi> params) draws (reworded \<pi> t) = map_prod id (reworded \<pi>) (startJob dir kind params draws t)"
proof (cases "kind \<in> set kinds \<and> dir \<noteq> []")
  case True
  let ?j = "new_job\<lparr>j_kind := kind, j_params := (if is_object params then params else JObj []), j_receipt := randomToken draws\<rparr>"
  have eq: "new_job\<lparr>j_kind := kind, j_params := (if is_object (renamed \<pi> params) then renamed \<pi> params else JObj []),
      j_receipt := randomToken draws\<rparr> = ?j\<lparr>j_params := renamed \<pi> (j_params ?j)\<rparr>"
    by (simp add: renamed_object)
  obtain p t1 where m: "make_job ?j t = (p, t1)" by fastforce
  show ?thesis
    using True unfolding startJob_def eq reworded_make m by (simp add: reworded_enqueue reworded_reads Let_def)
qed (auto simp: startJob_def)

lemma reworded_ack: "ackJob i c (reworded \<pi> t) = map_prod id (reworded \<pi>) (ackJob i c t)"
  by (simp add: ackJob_def erase_job_def reworded_lookup reworded_reads reworded_fields split: option.split)

lemma reworded_cancel: "cancelJob i c (reworded \<pi> t) = map_prod id (reworded \<pi>) (cancelJob i c t)"
  by (simp add: cancelJob_def erase_job_def reworded_lookup reworded_reads reworded_fields split: option.split)

lemma reworded_stop: "request_stop (reworded \<pi> t) = map_prod id (reworded \<pi>) (request_stop t)"
  by (simp add: request_stop_def reworded_reads reworded_fields)

lemma exec_reworded:
  assumes "host_call dir c"
  shows "exec wh (reworded_call \<pi> c) (reworded \<pi> t, r) = map_prod id (map_prod (reworded \<pi>) id) (exec wh c (t, r))"
  using assms by (cases c)
    (simp_all add: reworded_start reworded_ack reworded_cancel reworded_stop reworded_lookup split: prod.splits)

section \<open>The machine\<close>

definition renamed_sys :: "(string \<Rightarrow> string) \<Rightarrow> sys \<Rightarrow> sys" where
  "renamed_sys \<pi> s = s\<lparr>s_rt := renamed_rt \<pi> (s_rt s), s_tickets := reworded \<pi> (s_tickets s)\<rparr>"

lemma renamed_sys_simps [simp]:
  "s_rt (renamed_sys \<pi> s) = renamed_rt \<pi> (s_rt s)" "s_tickets (renamed_sys \<pi> s) = reworded \<pi> (s_tickets s)"
  "s_worker (renamed_sys \<pi> s) = s_worker s" "s_probe (renamed_sys \<pi> s) = s_probe s"
  "renamed_sys \<pi> (s\<lparr>s_rt := u\<rparr>) = (renamed_sys \<pi> s)\<lparr>s_rt := renamed_rt \<pi> u\<rparr>"
  "renamed_sys \<pi> (s\<lparr>s_tickets := t\<rparr>) = (renamed_sys \<pi> s)\<lparr>s_tickets := reworded \<pi> t\<rparr>"
  "renamed_sys \<pi> (s\<lparr>s_worker := w\<rparr>) = (renamed_sys \<pi> s)\<lparr>s_worker := w\<rparr>"
  "renamed_sys \<pi> (s\<lparr>s_probe := p\<rparr>) = (renamed_sys \<pi> s)\<lparr>s_probe := p\<rparr>"
  "w_what (renamed_world \<rho> W) = w_what W"
  by (simp_all add: renamed_sys_def renamed_world_def)

lemma renamed_step:
  assumes \<pi>: "naming \<pi> \<rho>" and "sys_step W s b t"
  shows "sys_step (renamed_world \<rho> W) (renamed_sys \<pi> s) b (renamed_sys \<pi> t)"
  using assms(2)
proof (induction rule: sys_step.induct)
  case (host s c a t r)
  have "m_walletsDir (renamed_rt \<pi> (s_rt s)) = m_walletsDir (s_rt s)" by (simp add: renamed_rt_def)
  moreover have "is_start (reworded_call \<pi> c) = is_start c" by (cases c) simp_all
  moreover have "host_call d (reworded_call \<pi> c) = host_call d c" for d by (cases c) simp_all
  ultimately show ?case
    using sys_step.host [of "renamed_sys \<pi> s" "reworded_call \<pi> c" "renamed_world \<rho> W" a "reworded \<pi> t" r] host
      exec_reworded [OF host.hyps(1), of "w_what W" \<pi>]
    by simp
next
  case (settled s p out st t)
  then show ?case
    using sys_step.settled [of "renamed_sys \<pi> s" p out "renamed_world \<rho> W" st "reworded \<pi> t"]
    by (simp add: reworded_settle reworded_reads)
next
  case (answer_lost s p out e t)
  then show ?case
    using sys_step.answer_lost [of "renamed_sys \<pi> s" p out "renamed_world \<rho> W" e "reworded \<pi> t"]
    by (simp add: reworded_settle)
next
  case (api_method c s r u)
  then show ?case
    using sys_step.api_method [of "renamed_world \<rho> W" "renamed_call \<pi> c" "renamed_sys \<pi> s" r "renamed_rt \<pi> u"]
    by (simp add: opaque [OF \<pi>])
next
  case (ready_dir dir s r u)
  then show ?case
    using sys_step.ready_dir [of "renamed_world \<rho> W" dir "renamed_sys \<pi> s" r "renamed_rt \<pi> u"]
    by (simp add: opaque [OF \<pi>])
next
  case (probe_wakes s)
  then show ?case
    using sys_step.probe_wakes [of "renamed_sys \<pi> s" "renamed_world \<rho> W"]
    by (simp add: probe_wait_def reworded_reads)
next
  case (reading s r u)
  then show ?case
    using sys_step.reading [of "renamed_sys \<pi> s" "renamed_world \<rho> W" r "renamed_rt \<pi> u"]
    by (simp add: opaque [OF \<pi>])
next
  case (idle_turn s t r u)
  then show ?case
    using sys_step.idle_turn [of "renamed_sys \<pi> s" "reworded \<pi> t" "renamed_world \<rho> W" r "renamed_rt \<pi> u"]
    by (simp add: opaque [OF \<pi>] reworded_turn)
next
  case (take_job s p t)
  then show ?case
    using sys_step.take_job [of "renamed_sys \<pi> s" p "reworded \<pi> t" "renamed_world \<rho> W"] by (simp add: reworded_turn)
next
  case (end_turn s t)
  then show ?case
    using sys_step.end_turn [of "renamed_sys \<pi> s" "reworded \<pi> t" "renamed_world \<rho> W"] by (simp add: reworded_turn)
next
  case (job s p j out u)
  then show ?case
    using sys_step.job [of "renamed_sys \<pi> s" p _ "renamed_world \<rho> W" out "renamed_rt \<pi> u", OF _ refl]
    by (simp add: opaque [OF \<pi>] reworded_reads)
next
  case (job_lost s p j e u)
  then show ?case
    using sys_step.job_lost [of "renamed_sys \<pi> s" p _ "renamed_world \<rho> W" e "renamed_rt \<pi> u", OF _ refl]
    by (simp add: opaque [OF \<pi>] reworded_reads)
next
  case (announced s i st r u)
  then show ?case
    using sys_step.announced [of "renamed_sys \<pi> s" i st "renamed_world \<rho> W" r "renamed_rt \<pi> u"]
    by (simp add: opaque [OF \<pi>])
next
  case (closed_down s r u)
  then show ?case
    using sys_step.closed_down [of "renamed_sys \<pi> s" "renamed_world \<rho> W" r "renamed_rt \<pi> u"]
    by (simp add: opaque [OF \<pi>])
qed

lemma renamed_start: "renamed_sys \<pi> init_sys = init_sys"
  by (simp add: renamed_sys_def init_sys_def reworded_def init_tickets_def new_job_def renamed_rt_def init_rt_def)

lemma renamed_reach:
  assumes "naming \<pi> \<rho>" "reach W n s"
  shows "reach (renamed_world \<rho> W) n (renamed_sys \<pi> s)"
  using assms(2)
proof (induction rule: reach.induct)
  case start
  show ?case unfolding renamed_start by (rule reach.start)
next
  case (step n s b t)
  show ?case by (rule reach.step [OF step.IH renamed_step [OF assms(1) step.hyps(2)]])
qed

section \<open>What the host is told\<close>

text \<open>C11. No one is told a secret: take any run of the module, rename every password, seed and key in the requests, and let the
  engine take the renamed ones for the originals. Then the module runs the same way, to the same state and the same
  tickets but for the requests they hold; every call to the host, the node module and the system is the same, and
  so is every call to the engine but for the secrets in its arguments; and whatever the host then asks of a ticket or of the
  wallet, the answer is the same. So no event, no answer and no other argument depends on a secret.\<close>

theorem secrets_never_told:
  assumes "naming \<pi> \<rho>" "reach W n s"
  shows "reach (renamed_world \<rho> W) n (renamed_sys \<pi> s) \<and>
    (\<forall>i c. jobStatus i c (s_tickets (renamed_sys \<pi> s)) = jobStatus i c (s_tickets s) \<and>
       jobResult i c (s_tickets (renamed_sys \<pi> s)) = jobResult i c (s_tickets s)) \<and>
    (\<forall>c. fst (api (renamed_world \<rho> W) (renamed_call \<pi> c) (s_rt (renamed_sys \<pi> s))) = fst (api W c (s_rt s))) \<and>
    filter (\<lambda>ev. \<not> carries_secret ev) (hist (s_rt (renamed_sys \<pi> s))) = filter (\<lambda>ev. \<not> carries_secret ev) (hist (s_rt s))"
proof -
  have "carries_secret (renamed_event \<pi> ev) = carries_secret ev" for ev
    by (cases "(\<pi>, ev)" rule: renamed_event.cases) simp_all
  then have "filter (\<lambda>ev. \<not> carries_secret ev) (map (renamed_event \<pi>) h) = filter (\<lambda>ev. \<not> carries_secret ev) h" for h
    by (induction h) (simp_all add: renamed_plain)
  then have "filter (\<lambda>ev. \<not> carries_secret ev) (hist (renamed_rt \<pi> u)) = filter (\<lambda>ev. \<not> carries_secret ev) (hist u)" for u
    by (simp add: renamed_rt_def)
  then show ?thesis
    using renamed_reach [OF assms] by (simp add: renamed_sys_def reworded_lookup opaque [OF assms(1)])
qed

text \<open>The wallet opened with one password, and with another.\<close>

definition swapped :: "string \<Rightarrow> string" where
  "swapped x = (if x = ''pw'' then ''other'' else if x = ''other'' then ''pw'' else x)"

lemma secrets_never_told_witness:
  "\<exists>s W p. reach tor_world 1 s \<and> value_str (w_what W) (j_params (heap (s_tickets s) p)) ''password'' [] = Inr ''pw'' \<and>
     reach W 1 (renamed_sys swapped s) \<and>
     value_str (w_what W) (j_params (heap (s_tickets (renamed_sys swapped s)) p)) ''password'' [] = Inr ''other'' \<and>
     jobStatus ''j1'' ''r'' (s_tickets (renamed_sys swapped s)) = jobStatus ''j1'' ''r'' (s_tickets s)"
proof -
  have c: "c_str x = x" if "x \<in> {''pw'', ''other''}" for x
    using that by (auto simp: c_str_def)
  have "c_str (c_str x) = c_str x" for x by (simp add: c_str_def)
  then have n: "naming swapped swapped"
    using c by (auto simp: naming_def swapped_def)
  obtain s p where s: "reach tor_world 1 s" "j_params (heap (s_tickets s) p) = open_params" using sample_running by blast
  have "value_str w (renamed swapped open_params) ''password'' [] = Inr ''other''" for w
    using c by (simp add: open_params_def value_simps secret_key_def swapped_def)
  with s secrets_never_told [OF n s(1)] show ?thesis
    by (intro exI [of _ s] exI [of _ "renamed_world swapped tor_world"] exI [of _ p])
      (simp add: renamed_sys_def reworded_reads sample_request)
qed

end
