(* ===== verification/Survival.thy ===== *)
theory Survival
  imports Worker Module_Api
begin

text \<open>
  What ends the process. The runtime catches what the engine throws, except in the destructor of
  \<^verbatim>\<open>RefreshPause\<close>, which calls into the engine: every operation that ends in \<^verbatim>\<open>std::terminate\<close> ends at
  that call.
\<close>

section \<open>The last event\<close>

text \<open>The history of a process that ended: at a resumed refresh that threw, or in a call that ended it itself.\<close>

fun resumes :: "event \<Rightarrow> bool" where
  "resumes (Wallet w W_startRefresh) = True"
| "resumes _ = False"

definition killed :: "world \<Rightarrow> trace \<Rightarrow> bool" where
  "killed W h \<longleftrightarrow> (\<exists>ev tr. h = ev # tr \<and> (resumes ev \<and> w_throw W tr ev \<noteq> None \<or> w_throw W tr ev = Some Terminated))"

definition ends_there :: "world \<Rightarrow> 'a run \<Rightarrow> bool" where
  "ends_there W m \<longleftrightarrow> (\<forall>s t. m s = (Inl Terminated, t) \<longrightarrow> killed W (hist t))"

named_theorems ends "programs that end the process only there"

lemma endsD: "ends_there W m \<Longrightarrow> fst (m s) = Inl Terminated \<Longrightarrow> killed W (hist (snd (m s)))"
  unfolding ends_there_def by (cases "m s") auto

section \<open>The rules\<close>

lemma ends_leaf [ends]:
  "ends_there W (retM x)" "ends_there W (getM f)" "ends_there W (modM g)" "ends_there W (logM ev)" "ends_there W (nowM W)"
  by (simp_all add: ends_there_def retM_def getM_def modM_def logM_def nowM_def bindM_def thenM_def)

lemma ends_call [ends]: "ends_there W (call W ans ev)" "ends_there W (callU W ev)"
  by (auto simp: ends_there_def callU_def call_def Let_def killed_def split: option.splits)

lemma ends_lift [ends]:
  "ends_there W (liftM (value_str what j k d))" "ends_there W (liftM (value_bool what j k d'))" "ends_there W (liftM (value_num what j k d''))"
proof -
  have "conv v \<noteq> Inl Terminated" if "conv = as_str what" for conv v
    unfolding that by (cases v) simp_all
  moreover have "conv v \<noteq> Inl Terminated" if "conv = as_bool what" for conv v
    unfolding that by (cases v) simp_all
  moreover have "conv v \<noteq> Inl Terminated" if "conv = as_num what" for conv v
    unfolding that by (cases v) simp_all
  ultimately show "ends_there W (liftM (value_str what j k d))" "ends_there W (liftM (value_bool what j k d'))"
    "ends_there W (liftM (value_num what j k d''))"
    by (auto simp: ends_there_def liftM_def value_str_def value_bool_def value_num_def value_with_def split: option.splits if_splits)
qed

lemma ends_bind [ends]: "ends_there W m \<Longrightarrow> (\<And>x. ends_there W (k x)) \<Longrightarrow> ends_there W (bindM m k)"
  by (fastforce simp: ends_there_def bindM_def split: prod.splits sum.splits)

lemma ends_then [ends]: "ends_there W m \<Longrightarrow> ends_there W k \<Longrightarrow> ends_there W (thenM m k)"
  by (simp add: thenM_def ends_bind)

lemma ends_cases [ends]:
  "ends_there W m \<Longrightarrow> ends_there W n \<Longrightarrow> ends_there W (if b then m else n)"
  "ends_there W u \<Longrightarrow> ends_there W (whenM b u)"
  "ends_there W m \<Longrightarrow> (\<And>y. ends_there W (k y)) \<Longrightarrow> ends_there W (case x of None \<Rightarrow> m | Some y \<Rightarrow> k y)"
  "(\<And>a. ends_there W (f a)) \<Longrightarrow> (\<And>b. ends_there W (g b)) \<Longrightarrow> ends_there W (case z of Inl a \<Rightarrow> f a | Inr b \<Rightarrow> g b)"
  "(\<And>a b. ends_there W (h a b)) \<Longrightarrow> ends_there W (case p of (a, b) \<Rightarrow> h a b)"
  by (auto simp: whenM_def intro: ends split: option.split sum.split prod.split)

lemma ends_for [ends]: "(\<And>x. ends_there W (f x)) \<Longrightarrow> ends_there W (forM xs f)"
  by (induction xs) (auto intro: ends)

lemma ends_catch [ends]:
  "ends_there W m \<Longrightarrow> (\<And>w. ends_there W (h1 w)) \<Longrightarrow> ends_there W h2 \<Longrightarrow> ends_there W (catchM m h1 h2)"
  by (fastforce simp: ends_there_def catchM_def split: prod.splits sum.splits exn.splits)

lemma ends_finally:
  "ends_there W m \<Longrightarrow> (\<And>s e t. d s = (Inl e, t) \<Longrightarrow> killed W (hist t)) \<Longrightarrow> ends_there W (finallyM m d)"
  by (fastforce simp: ends_there_def finallyM_def split: prod.splits sum.splits if_splits)

lemma ends_scopes [ends]:
  "ends_there W body \<Longrightarrow> ends_there W (with_lock mu md body)"
  "ends_there W body \<Longrightarrow> ends_there W (with_pause W w body)"
  unfolding with_lock_def with_pause_def
  by (intro ends ends_finally; auto simp: runs logM_def modM_def callU_def call_def killed_def Let_def split: if_splits option.splits)+

lemma ends_helpers [ends]:
  "ends_there W busy \<Longrightarrow> ends_there W body \<Longrightarrow> ends_there W (try_shared W busy body)"
  "ends_there W (takeM W p)" "ends_there W (takeJoined W p)" "ends_there W (socketsTo W hp drp)"
  "ends_there W (setState W st e)" "ends_there W (notifyOpen W network opn)" "ends_there W (resetLocksOnce W)"
  "ends_there W sendsWaitForTor" "ends_there W (verifyPassword W pw)" "ends_there W (setWalletsDir dir)"
  unfolding try_shared_def takeM_def takeJoined_def socketsTo_def setState_def notifyOpen_def resetLocksOnce_def
    sendsWaitForTor_def verifyPassword_def setWalletsDir_def
  by (intro ends | assumption)+

section \<open>The operations\<close>

lemma ends_sends:
  "ends_there W (doClose W)" "ends_there W (doRescan W)" "ends_there W (doCreateTransaction W p)"
  "ends_there W (doCommit W p)" "ends_there W (doDispose W p)" "ends_there W (doChangePassword W p)"
  unfolding doClose_def detach_wallet_def close_detached_def doRescan_def doCreateTransaction_def buildTransaction_def
    doCommit_def commitTransaction_def doDispose_def doChangePassword_def Let_def
  by (intro ends)+

lemma ends_await: "ends_there W (await_loop W w n)"
  by (induction n) (simp_all, (intro ends | assumption)+)

lemma ends_open: "ends_there W (doOpenLike W k p)"
  unfolding doOpenLike_def plan_open_def load_wallet_def or_return_def check_loaded_def dial_wallet_def await_node_def
    publish_wallet_def hand_over_def Let_def
  by (intro ends ends_await)

lemma ends_background: "ends_there W (tick W)" "ends_there W (probe W)"
  unfolding tick_def tick_decide_def moveToTor_def relocate_def goOffline_def quieten_def redial_def dial_tor_def
    settle_route_def probe_def Let_def
  by (intro ends)+

lemma ends_worker:
  "ends_there W (run_job W k p)" "ends_there W (idle W)" "ends_there W (announce W i st)" "ends_there W (shutdown_close W)"
  "ends_there W (onContextReady W dir)"
  unfolding run_job_def dispatch_def idle_def announce_def shutdown_close_def onContextReady_def Let_def
  by (intro ends ends_sends ends_open ends_background)+

lemma ends_loops:
  "ends_there W (subaddresses_loop W w account js)" "ends_there W (destinations_loop W t ds)"
proof -
  show "ends_there W (subaddresses_loop W w account js)" by (induction js) (simp_all, (intro ends | assumption)+)
  show "ends_there W (destinations_loop W t ds)" by (induction ds) (simp_all, (intro ends | assumption)+)
qed

lemma ends_rows: "ends_there W (history_loop W h ds)"
proof (induction ds)
  case (Cons d ds)
  then show ?case unfolding history_loop.simps history_row_def by (intro ends ends_loops)
qed (simp add: ends)

lemma ends_reads:
  "ends_there W (status W)" "ends_there W (balance W a)" "ends_there W (unlockedBalance W a)" "ends_there W (address W acc i)"
  "ends_there W (subaddresses W a)" "ends_there W (createSubaddress W a label)" "ends_there W (setSubaddressLabel W a j label)"
  "ends_there W (history W)" "ends_there W (revealSeed W pw)" "ends_there W (revealViewKey W pw)" "ends_there W (walletExists W name)"
  unfolding status_def balance_def unlockedBalance_def address_def subaddresses_def createSubaddress_def
    setSubaddressLabel_def history_def revealSeed_def revealViewKey_def walletExists_def Let_def
  by (intro ends ends_loops ends_rows)+

lemma fromJson_lives: "fromJson what j \<noteq> Inl Terminated"
proof -
  have "as_bool what v \<noteq> Inl Terminated" "as_str what v \<noteq> Inl Terminated" for v by (cases v; simp)+
  then show ?thesis
    by (auto simp: fromJson_def value_bool_def value_str_def value_with_def Let_def split: sum.splits bool.splits option.splits if_splits)
qed

lemma ends_methods: "ends_there W (api W c)"
proof -
  have "ends_there W (liftM (fromJson (w_what W) j))" for j
    using fromJson_lives [of "w_what W" j] by (auto simp: ends_there_def liftM_def)
  then show ?thesis
    by (cases c; simp only: api.simps as_result_def; intro ends ends_reads)
qed

section \<open>What ends the process\<close>


text \<open>An engine that cannot resume its refresh, and a build for a view-only wallet, refused until then.\<close>

definition stuck_world :: world where
  "stuck_world = quiet_world\<lparr>w_throw := (\<lambda>_ ev. if resumes ev then Some (StdException ''refresh'') else None)\<rparr>"

lemma stuck_world_simps:
  "w_throw stuck_world tr ev = (if resumes ev then Some (StdException ''refresh'') else None)"
  "w_bool stuck_world tr ev = True"
  by (simp_all add: stuck_world_def quiet_world_def)

lemma throwing_resume_kills:
  assumes "m_wallet s = 1" "m_route s = Direct" "m_locksReset s"
  shows "fst (run_job stuck_world ''create_transaction'' JNull s) = Inl Terminated"
  using assms by (simp add: run_job_def resetLocksOnce_def dispatch_def doCreateTransaction_def sendsWaitForTor_def catchM_def runs
      stuck_world_simps)


text \<open>With an engine that never does, no operation ends the process.\<close>

definition gentle :: "world \<Rightarrow> bool" where
  "gentle W \<longleftrightarrow> (\<forall>tr. \<not> killed W tr)"

lemma ends_alive: "ends_there W m \<Longrightarrow> gentle W \<Longrightarrow> m s = (r, t) \<Longrightarrow> r \<noteq> Inl Terminated"
  by (auto simp: ends_there_def gentle_def)

end
