(* ===== verification/Shutdown.thy ===== *)
theory Shutdown
  imports System Survival
begin

text \<open>
  The end of the module: after \<^verbatim>\<open>shutdown\<close> has asked the two threads to stop, they return after a bounded
  number of their own steps, whatever the host keeps calling, and \<^verbatim>\<open>shutdown\<close> returns.
\<close>

section \<open>What is left to do\<close>

fun worker_left :: "worker \<Rightarrow> nat" where
  "worker_left (Running p) = 5"
| "worker_left (Answered p out) = 4"
| "worker_left (Announcing i st) = 3"
| "worker_left Waiting = 2"
| "worker_left Ended = 1"
| "worker_left Closed = 0"

fun probe_left :: "prober \<Rightarrow> nat" where
  "probe_left Woken = 2"
| "probe_left Watching = 1"
| "probe_left Gone = 0"

definition remaining :: "sys \<Rightarrow> nat" where
  "remaining s = worker_left (s_worker s) + probe_left (s_probe s)"

lemma remaining_bound: "remaining s \<le> 7"
  by (cases "s_worker s"; cases "s_probe s") (simp_all add: remaining_def)

definition stopping :: "sys \<Rightarrow> bool" where
  "stopping s \<longleftrightarrow> m_stop (s_tickets s)"

text \<open>Nothing takes the request back, and no step makes the end further away.\<close>

lemma settle_stop: "m_stop (snd (settle wh p out t)) = m_stop t"
  by (simp add: settle_def runs split: sum.split prod.split)

lemma stop_kept: "host_call dir c \<Longrightarrow> exec wh c (t, r) = (a, t', r') \<Longrightarrow> m_stop t \<Longrightarrow> m_stop t'"
  by (cases "(wh, c, t, r)" rule: exec.cases)
    (auto simp: startJob_def make_job_def enqueue_def ackJob_def cancelJob_def erase_job_def request_stop_def Let_def
      split: prod.splits option.splits if_splits)

lemma stop_turn: "m_stop t \<Longrightarrow> next_turn t = (Stop, t)"
  by (simp add: next_turn_def)

lemma stop_stays:
  assumes "sys_step W s b s'" "stopping s"
  shows "stopping s' \<and> remaining s' \<le> remaining s"
  using assms
proof (induction rule: sys_step.induct)
  case (host s c a t r)
  then show ?case using stop_kept by (simp add: stopping_def remaining_def)
next
  case (settled s p out st t)
  then show ?case using settle_stop [of "w_what W" p out "s_tickets s"] by (simp add: stopping_def remaining_def)
next
  case (answer_lost s p out e t)
  then show ?case using settle_stop [of "w_what W" p out "s_tickets s"] by (simp add: stopping_def remaining_def)
qed (auto simp: stopping_def remaining_def stop_turn probe_wait_def joined_def)

text \<open>While anything is left, a step of one of the threads is possible, and it is less afterwards.\<close>

lemma stop_moves:
  assumes "gentle W" "stopping s" "remaining s \<noteq> 0"
  shows "\<exists>s'. sys_step W s False s' \<and> remaining s' < remaining s"
proof (cases "s_worker s")
  case Waiting
  then show ?thesis
    using sys_step.end_turn [of s "s_tickets s" W] stop_turn [of "s_tickets s"] assms(2)
    by (intro exI conjI) (auto simp: stopping_def remaining_def)
next
  case (Running p)
  let ?j = "heap (s_tickets s) p"
  obtain r u where run: "run_job W (j_kind ?j) (j_params ?j) (s_rt s) = (r, u)" by fastforce
  then have "r \<noteq> Inl Terminated" using ends_alive [OF ends_worker(1) assms(1)] by blast
  with sys_step.job [OF Running refl] sys_step.job_lost [OF Running refl] run Running show ?thesis
    by (cases r) (force simp: remaining_def)+
next
  case (Answered p out)
  obtain r u where run: "settle (w_what W) p out (s_tickets s) = (r, u)" by fastforce
  with sys_step.settled [OF Answered] sys_step.answer_lost [OF Answered] Answered show ?thesis
    by (cases r) (force simp: remaining_def)+
next
  case (Announcing i st)
  obtain r u where run: "announce W i st (s_rt s) = (r, u)" by fastforce
  then have "r \<noteq> Inl Terminated" using ends_alive [OF ends_worker(3) assms(1)] by blast
  with sys_step.announced [OF Announcing run] Announcing show ?thesis by (force simp: remaining_def)
next
  case Ended
  show ?thesis
  proof (cases "s_probe s")
    case Watching
    with sys_step.probe_wakes [of s W] assms(2) show ?thesis by (force simp: stopping_def remaining_def probe_wait_def)
  next
    case Woken
    obtain r u where run: "probe W (s_rt s) = (r, u)" by fastforce
    then have "r \<noteq> Inl Terminated" using ends_alive [OF ends_background(2) assms(1)] by blast
    with sys_step.reading [OF Woken run] Woken show ?thesis by (force simp: remaining_def)
  next
    case Gone
    obtain r u where run: "shutdown_close W (s_rt s) = (r, u)" by fastforce
    then have "r \<noteq> Inl Terminated" using ends_alive [OF ends_worker(4) assms(1)] by blast
    with sys_step.closed_down [of s W r u] run Ended Gone show ?thesis by (force simp: remaining_def joined_def)
  qed
next
  case Closed
  show ?thesis
  proof (cases "s_probe s")
    case Watching
    with sys_step.probe_wakes [of s W] assms(2) show ?thesis by (force simp: stopping_def remaining_def probe_wait_def)
  next
    case Woken
    obtain r u where run: "probe W (s_rt s) = (r, u)" by fastforce
    then have "r \<noteq> Inl Terminated" using ends_alive [OF ends_background(2) assms(1)] by blast
    with sys_step.reading [OF Woken run] Woken show ?thesis by (force simp: remaining_def)
  qed (use assms(3) Closed in \<open>simp add: remaining_def\<close>)
qed

text \<open>The steps of the threads alone, one after the other.\<close>

inductive steps :: "world \<Rightarrow> nat \<Rightarrow> sys \<Rightarrow> sys \<Rightarrow> bool" for W where
  none: "steps W 0 s s"
| more: "sys_step W s False s' \<Longrightarrow> steps W n s' s'' \<Longrightarrow> steps W (Suc n) s s''"

lemma stop_run:
  assumes "gentle W" "stopping s"
  shows "\<exists>n\<le>remaining s. \<exists>s'. steps W n s s' \<and> remaining s' = 0"
  using assms(2)
proof (induction "remaining s" arbitrary: s rule: less_induct)
  case less
  show ?case
  proof (cases "remaining s = 0")
    case True
    then show ?thesis using steps.none by (intro exI [of _ 0]) auto
  next
    case False
    then obtain s1 where s1: "sys_step W s False s1" "remaining s1 < remaining s"
      using stop_moves [OF assms(1) less.prems] by blast
    obtain n s' where "n \<le> remaining s1" "steps W n s1 s'" "remaining s' = 0"
      using less.hyps [OF s1(2)] stop_stays [OF s1(1) less.prems] by blast
    with s1 steps.more [OF s1(1)] show ?thesis by (intro exI [of _ "Suc n"] conjI exI [of _ s']) auto
  qed
qed

lemma remaining_zero: "remaining s = 0 \<longleftrightarrow> s_worker s = Closed \<and> s_probe s = Gone"
  by (cases "s_worker s"; cases "s_probe s") (simp_all add: remaining_def)

text \<open>C19. The shutdown ends: once the threads were asked to stop, whatever state they are in and whatever the engine answers or throws
  short of ending the process, at most seven steps of theirs bring both to their end and \<^verbatim>\<open>shutdown\<close> to its return; and no step
  of anyone, the host's calls included, takes the request back or makes that end further away.\<close>

theorem shutdown_ends:
  assumes "gentle W" "m_stop (s_tickets s)"
  shows "(\<exists>n\<le>7. \<exists>s'. steps W n s s' \<and> s_worker s' = Closed \<and> s_probe s' = Gone) \<and>
    (\<forall>b s'. sys_step W s b s' \<longrightarrow> m_stop (s_tickets s') \<and> remaining s' \<le> remaining s)"
proof (intro conjI allI impI)
  have st: "stopping s" using assms(2) by (simp add: stopping_def)
  show "\<exists>n\<le>7. \<exists>s'. steps W n s s' \<and> s_worker s' = Closed \<and> s_probe s' = Gone"
    using stop_run [OF assms(1) st] remaining_bound [of s] remaining_zero by (meson le_trans)
  fix b s'
  assume "sys_step W s b s'"
  from stop_stays [OF this st] show "m_stop (s_tickets s')" "remaining s' \<le> remaining s" by (simp_all add: stopping_def)
qed

lemma quiet_gentle: "gentle quiet_world"
  by (simp add: gentle_def killed_def quiet_world_def)

lemma shutdown_ends_witness:
  "\<exists>n s'. n \<le> 7 \<and> steps quiet_world n (init_sys\<lparr>s_tickets := snd (request_stop init_tickets)\<rparr>) s' \<and> s_worker s' = Closed"
  using shutdown_ends [OF quiet_gentle, of "init_sys\<lparr>s_tickets := snd (request_stop init_tickets)\<rparr>"]
  by (auto simp: request_stop_def init_tickets_def)

end
