(* ===== verification/Memory.thy ===== *)
theory Memory
  imports Histories
begin

text \<open>
  Who frees what: the engine hands most strings over as copies the caller must release, and its joining getters
  return a shared literal when there is nothing to join, which must not be released. The histories of the
  module are shown to release exactly what was handed over, at once and one time.
\<close>

section \<open>What is owed\<close>

text \<open>The string the caller owns after a call: none where it threw, answered null, or joined nothing.\<close>

definition owes :: "world \<Rightarrow> trace \<Rightarrow> event \<Rightarrow> string option" where
  "owes W tr ev =
     (if w_throw W tr ev \<noteq> None then None
      else if hands_over ev then map_option c_str (w_str W tr ev)
      else if joins ev then (case w_str W tr ev of Some c \<Rightarrow> if c_str c = [] then None else Some (c_str c) | None \<Rightarrow> None)
      else None)"

definition due :: "world \<Rightarrow> trace \<Rightarrow> string option" where
  "due W tr = (case tr of [] \<Rightarrow> None | ev # tr' \<Rightarrow> owes W tr' ev)"

text \<open>A history in which every event that follows a string owed is its release, and every release is owed.\<close>

fun settled_events :: "world \<Rightarrow> trace \<Rightarrow> bool" where
  "settled_events W [] \<longleftrightarrow> True"
| "settled_events W (ev # tr) \<longleftrightarrow> settled_events W tr \<and>
     (case ev of MONERO_free x \<Rightarrow> due W tr = Some x | _ \<Rightarrow> due W tr = None)"

text \<open>Between two statements of the program nothing is owed.\<close>

definition clean :: "world \<Rightarrow> rt \<Rightarrow> bool" where
  "clean W s \<longleftrightarrow> settled_events W (hist s) \<and> due W (hist s) = None"

lemma owes_none: "\<not> special ev \<Longrightarrow> owes W tr ev = None"
  by (cases ev) (simp_all add: owes_def)

lemma settled_Cons:
  "\<forall>x. ev \<noteq> MONERO_free x \<Longrightarrow> settled_events W (ev # tr) \<longleftrightarrow> settled_events W tr \<and> due W tr = None"
  by (cases ev) simp_all

lemma clean_event:
  "\<not> special ev \<or> (\<exists>n p. ev = Emit n p) \<Longrightarrow> clean W s \<Longrightarrow> clean W (s\<lparr>hist := ev # hist s\<rparr>)"
  using owes_none [of ev W "hist s"] by (cases ev) (auto simp: clean_def due_def owes_def)

lemma free_owes: "owes W tr (MONERO_free x) = None"
  by (simp add: owes_def)

lemma clean_take:
  assumes "hands_over ev"
  shows "keeps (clean W) (take_call W ev)"
proof (rule keepsI)
  have ev: "\<forall>x. ev \<noteq> MONERO_free x" using assms by auto
  fix s assume "clean W s"
  then have "settled_events W (ev # hist s)"
    unfolding settled_Cons [OF ev] by (simp add: clean_def)
  then show "wp (take_call W ev) (\<lambda>r t. r = Inl Terminated \<or> clean W t) s"
    using assms by (auto simp: wp takeM_def clean_def due_def free_owes owes_def split: option.splits)
qed

lemma clean_joined:
  assumes "joins ev"
  shows "keeps (clean W) (joined_call W ev)"
proof (rule keepsI)
  have ev: "\<forall>x. ev \<noteq> MONERO_free x" "\<not> hands_over ev" using assms by (auto elim: joins.elims)
  fix s assume "clean W s"
  then have "settled_events W (ev # hist s)"
    unfolding settled_Cons [OF ev(1)] by (simp add: clean_def)
  then show "wp (joined_call W ev) (\<lambda>r t. r = Inl Terminated \<or> clean W t) s"
    using assms ev(2) by (auto simp: wp takeJoined_def clean_def due_def free_owes owes_def split: option.splits)
qed

interpretation mem: history_invariant W "clean W" for W
proof
  show "clean W s \<Longrightarrow> hist t = hist s \<Longrightarrow> clean W t" for s t by (simp add: clean_def)
  show "clean W s \<Longrightarrow> \<not> special ev \<Longrightarrow> clean W (s\<lparr>hist := ev # hist s\<rparr>)" for s ev by (simp add: clean_event)
  have emit: "keeps (clean W) (callU W (Emit n j))" for n j
    by (rule keeps_callU) (simp add: clean_event)
  show "keeps (clean W) (callU W (Emit ''walletStateChanged'' j))" for j by (rule emit)
  show "keeps (clean W) (callU W (Emit ''jobFinished'' (JObj [(''jobId'', JStr i), (''state'', JStr st)])))" for i st by (rule emit)
qed (rule clean_take clean_joined; assumption)+

section \<open>Every history\<close>

lemma settled_suffix: "settled_events W (later @ tr) \<Longrightarrow> settled_events W tr"
  by (induction later) simp_all

lemma released_next:
  assumes "settled_events W (later @ ev # tr)" "due W (later @ ev # tr) = None" "owes W tr ev = Some x"
  shows "\<exists>later'. later = later' @ [MONERO_free x]"
proof (cases later rule: rev_exhaust)
  case Nil
  with assms(2,3) show ?thesis by (simp add: due_def)
next
  case (snoc later' e)
  have "settled_events W (e # ev # tr)" using settled_suffix [of W later' "e # ev # tr"] assms(1) snoc by simp
  then have "e = MONERO_free x" using assms(3) by (cases e) (simp_all add: due_def)
  with snoc show ?thesis by blast
qed



end
