(* ===== verification/Events.thy ===== *)
theory Events
  imports Histories
begin

text \<open>
  The events of the module: what the runtime emits is what the module can route to its two typed emitters.
\<close>

text \<open>An event of a known name, with the members its emitter reads.\<close>

definition routable :: "event \<Rightarrow> bool" where
  "routable ev \<longleftrightarrow> (\<forall>name payload. ev = Emit name payload \<longrightarrow> name = ''walletStateChanged'' \<or>
     name = ''jobFinished'' \<and> (\<exists>i st. payload = JObj [(''jobId'', JStr i), (''state'', JStr st)]))"

definition routed :: "rt \<Rightarrow> bool" where
  "routed s \<longleftrightarrow> (\<forall>ev\<in>set (hist s). routable ev)"

lemma routed_event: "routed s \<Longrightarrow> routable ev \<Longrightarrow> routed (s\<lparr>hist := ev # hist s\<rparr>)"
  by (simp add: routed_def)

lemma not_special: "\<not> special ev \<or> hands_over ev \<or> joins ev \<Longrightarrow> routable ev"
  by (cases ev) (simp_all add: routable_def)

interpretation evs: history_invariant W routed for W
proof
  show "routed s \<Longrightarrow> hist t = hist s \<Longrightarrow> routed t" for s t by (simp add: routed_def)
  show "routed s \<Longrightarrow> \<not> special ev \<Longrightarrow> routed (s\<lparr>hist := ev # hist s\<rparr>)" for s ev
    by (simp add: routed_event not_special)
  have free: "routable (MONERO_free x)" for x by (simp add: routable_def)
  show "keeps routed (take_call W ev)" if "hands_over ev" for ev
    unfolding takeM_def using that by (intro keeps keeps_call keeps_callU routed_event free) (simp_all add: not_special)
  show "keeps routed (joined_call W ev)" if "joins ev" for ev
    unfolding takeJoined_def using that by (intro keeps keeps_call keeps_callU routed_event free) (simp_all add: not_special)
  show "keeps routed (callU W (Emit ''walletStateChanged'' j))" for j
    by (intro keeps_callU routed_event) (simp_all add: routable_def)
  show "keeps routed (callU W (Emit ''jobFinished'' (JObj [(''jobId'', JStr i), (''state'', JStr st)])))" for i st
    by (intro keeps_callU routed_event) (simp_all add: routable_def)
qed

text \<open>Every event of the runtime reaches its typed emitter: whatever the module did to get there, an event it emitted is the change of
  the wallet's state, with the text of its payload, or the end of a job, with its name and state; none is dropped by its
  name, and only the JSON library's \<^verbatim>\<open>dump()\<close> can throw on the way.\<close>

theorem events_reach_host:
  assumes "reach W n s" "Emit name payload \<in> set (hist (s_rt s))"
  shows "(\<exists>i st. name = ''jobFinished'' \<and> emit_event dump what name payload = Inr (Some (JobFinished i st))) \<or>
    (name = ''walletStateChanged'' \<and> (case dump payload of
       Inr txt \<Rightarrow> emit_event dump what name payload = Inr (Some (WalletStateChanged txt))
     | Inl e \<Rightarrow> emit_event dump what name payload = Inl e))"
proof -
  have "routed (s_rt s)" by (rule evs.reached [OF _ assms(1)]) (simp add: routed_def init_rt_def)
  with assms(2) have "routable (Emit name payload)" by (auto simp: routed_def)
  then show ?thesis
    by (auto simp: routable_def emit_event_def value_simps split: sum.split)
qed

lemma events_reach_host_witness:
  "\<exists>s p. reach tor_world 1 s \<and> Emit ''walletStateChanged'' p \<in> set (hist (s_rt s)) \<and>
     emit_event (\<lambda>_. Inr ''{}'') (\<lambda>_ _. []) ''walletStateChanged'' p = Inr (Some (WalletStateChanged ''{}''))"
proof -
  obtain s where "reach tor_world 1 s" "list_ex tells_state (hist (s_rt s))"
    using sample_on_tor by blast
  then obtain p where s: "reach tor_world 1 s" "Emit ''walletStateChanged'' p \<in> set (hist (s_rt s))"
    by (auto simp: list_ex_iff elim!: tells_state.elims)
  from events_reach_host [OF this, of "\<lambda>_. Inr ''{}''" "\<lambda>_ _. []"] s show ?thesis by auto
qed

end
