(* ===== verification/Footprint.thy ===== *)
theory Footprint
  imports Module_Api
begin

text \<open>
  Which fields of the runtime the threads beside the worker write: the methods none, the probe its own three,
  the start the directory. What the worker reads of the wallet, its route and its transactions is its own.
\<close>

text \<open>A view of the state that does not see the history, kept as it was.\<close>

definition blind :: "(rt \<Rightarrow> 'v) \<Rightarrow> bool" where
  "blind f \<longleftrightarrow> (\<forall>s h. f (s\<lparr>hist := h\<rparr>) = f s)"

abbreviation same_view :: "(rt \<Rightarrow> 'v) \<Rightarrow> 'v \<Rightarrow> rt \<Rightarrow> bool" where
  "same_view f v \<equiv> (\<lambda>s. f s = v)"

named_theorems fp "programs that leave a view of the state"

lemma fp_base [fp]:
  assumes "blind f"
  shows "keeps (same_view f v) (call W ans ev)" "keeps (same_view f v) (callU W ev)" "keeps (same_view f v) (logM ev)"
  by (intro keeps_call keeps_callU keeps_log; use assms in \<open>simp add: blind_def\<close>)+

lemma fp_helpers [fp]:
  assumes "blind f"
  shows "keeps (same_view f v) body \<Longrightarrow> keeps (same_view f v) (with_lock mu md body)"
    "keeps (same_view f v) busy \<Longrightarrow> keeps (same_view f v) body \<Longrightarrow> keeps (same_view f v) (try_shared W busy body)"
    "keeps (same_view f v) (takeM W p)" "keeps (same_view f v) (takeJoined W p)" "keeps (same_view f v) (socketsTo W hp drp)"
    "keeps (same_view f v) (verifyPassword W pw)"
  unfolding with_lock_def try_shared_def takeM_def takeJoined_def socketsTo_def verifyPassword_def
  by (intro keeps fp_base [OF assms] | assumption)+

lemma fp_loops:
  assumes "blind f"
  shows "keeps (same_view f v) (subaddresses_loop W w account js)" "keeps (same_view f v) (destinations_loop W t ds)"
proof -
  note fps = fp_base [OF assms] fp_helpers [OF assms]
  show "keeps (same_view f v) (subaddresses_loop W w account js)" by (induction js) (simp_all, (intro keeps fps; simp)+)
  show "keeps (same_view f v) (destinations_loop W t ds)" by (induction ds) (simp_all, (intro keeps fps; simp)+)
qed

lemma fp_rows:
  assumes "blind f"
  shows "keeps (same_view f v) (history_loop W h ds)"
proof (induction ds)
  case (Cons d ds)
  note fps = fp_base [OF assms] fp_helpers [OF assms] fp_loops [OF assms]
  show ?case unfolding history_loop.simps history_row_def by (intro keeps fps Cons.IH)
qed (simp add: keeps)

lemma fp_reads:
  assumes "blind f"
  shows "keeps (same_view f v) (status W)" "keeps (same_view f v) (balance W a)" "keeps (same_view f v) (unlockedBalance W a)"
    "keeps (same_view f v) (address W acc i)" "keeps (same_view f v) (subaddresses W a)"
    "keeps (same_view f v) (createSubaddress W a label)" "keeps (same_view f v) (setSubaddressLabel W a j label)"
    "keeps (same_view f v) (history W)" "keeps (same_view f v) (revealSeed W pw)" "keeps (same_view f v) (revealViewKey W pw)"
    "keeps (same_view f v) (walletExists W name)"
  unfolding status_def balance_def unlockedBalance_def address_def subaddresses_def createSubaddress_def
    setSubaddressLabel_def history_def revealSeed_def revealViewKey_def walletExists_def Let_def
  by (intro keeps fp_base [OF assms] fp_helpers [OF assms] fp_loops [OF assms] fp_rows [OF assms])+

lemma fp_methods: "blind f \<Longrightarrow> keeps (same_view f v) (api W c)"
  by (cases c; simp add: as_result_def; intro keeps fp_reads; assumption)

lemma fp_probe:
  assumes "blind f" "\<And>s b c h. f (s\<lparr>m_probed := b, m_daemonConnected := c, m_daemonHeight := h\<rparr>) = f s"
  shows "keeps (same_view f v) (probe W)"
proof -
  have "f (s\<lparr>m_probed := b, m_daemonConnected := c\<rparr>) = f s" for s b c
    using assms(2) [where s = s and b = b and c = c and h = "m_daemonHeight s"] by simp
  then show ?thesis
    unfolding probe_def Let_def using assms(2)
    by (intro keeps fp_base [OF assms(1)] fp_helpers [OF assms(1)] keeps_mod) simp_all
qed

lemma fp_ready:
  assumes "blind f" "\<And>s d. f (s\<lparr>m_walletsDir := d\<rparr>) = f s"
  shows "keeps (same_view f v) (onContextReady W dir)"
  unfolding onContextReady_def setWalletsDir_def Let_def using assms(2)
  by (intro keeps fp_base [OF assms(1)] fp_helpers [OF assms(1)] keeps_mod) simp_all

text \<open>C26. Only the worker writes the wallet's state: the methods the host calls on its threads, those that change a subaddress or
  reveal a secret included, leave every field of the runtime as it was, whatever the engine answers or throws; the probe writes
  only its reading, and the start of the module only the directory of the wallets.\<close>

theorem readers_write_nothing:
  "(\<forall>t. api W c s = (r, t) \<and> r \<noteq> Inl Terminated \<longrightarrow> t = s\<lparr>hist := hist t\<rparr>) \<and>
   (\<forall>t. probe W s = (r', t) \<and> r' \<noteq> Inl Terminated \<longrightarrow>
     t = s\<lparr>m_probed := m_probed t, m_daemonConnected := m_daemonConnected t, m_daemonHeight := m_daemonHeight t, hist := hist t\<rparr>) \<and>
   (\<forall>t. onContextReady W dir s = (r', t) \<and> r' \<noteq> Inl Terminated \<longrightarrow> t = s\<lparr>m_walletsDir := m_walletsDir t, hist := hist t\<rparr>)"
proof -
  let ?a = "\<lambda>s::rt. s\<lparr>hist := []\<rparr>"
  let ?p = "\<lambda>s::rt. s\<lparr>m_probed := False, m_daemonConnected := False, m_daemonHeight := 0, hist := []\<rparr>"
  let ?d = "\<lambda>s::rt. s\<lparr>m_walletsDir := [], hist := []\<rparr>"
  have "?a t = ?a s" if "api W c s = (r, t)" "r \<noteq> Inl Terminated" for t
    by (rule keepsD [OF fp_methods [of ?a] refl that]) (simp add: blind_def)
  moreover have "?p t = ?p s" if "probe W s = (r', t)" "r' \<noteq> Inl Terminated" for t
    by (rule keepsD [OF fp_probe [of ?p] refl that]) (simp_all add: blind_def)
  moreover have "?d t = ?d s" if "onContextReady W dir s = (r', t)" "r' \<noteq> Inl Terminated" for t
    by (rule keepsD [OF fp_ready [of ?d] refl that]) (simp_all add: blind_def)
  moreover have "t = s\<lparr>hist := hist t\<rparr>" if "?a t = ?a s" for t
    using arg_cong [OF that, of "\<lambda>u. u\<lparr>hist := hist t\<rparr>"] by simp
  moreover have "t = s\<lparr>m_probed := m_probed t, m_daemonConnected := m_daemonConnected t, m_daemonHeight := m_daemonHeight t, hist := hist t\<rparr>"
    if "?p t = ?p s" for t
    using arg_cong [OF that, of "\<lambda>u. u\<lparr>m_probed := m_probed t, m_daemonConnected := m_daemonConnected t,
      m_daemonHeight := m_daemonHeight t, hist := hist t\<rparr>"] by simp
  moreover have "t = s\<lparr>m_walletsDir := m_walletsDir t, hist := hist t\<rparr>" if "?d t = ?d s" for t
    using arg_cong [OF that, of "\<lambda>u. u\<lparr>m_walletsDir := m_walletsDir t, hist := hist t\<rparr>"] by simp
  ultimately show ?thesis by blast
qed

lemma readers_write_nothing_witness:
  "\<exists>t. api quiet_world (ApiBalance 0) (init_rt\<lparr>m_wallet := 1\<rparr>) = (Inr (LogosString ''0''), t) \<and>
     t = init_rt\<lparr>m_wallet := 1, hist := hist t\<rparr> \<and> WalletRead 1 (W_balance 0) \<in> set (hist t)"
proof -
  have q: "w_bool quiet_world tr ev" "w_throw quiet_world tr ev = None" "w_u64 quiet_world tr ev = 0" for tr ev
    by (simp_all add: quiet_world_def)
  have "to_string 0 = ''0''" "index32 0 = 0" by code_simp+
  then obtain t where t: "api quiet_world (ApiBalance 0) (init_rt\<lparr>m_wallet := 1\<rparr>) = (Inr (LogosString ''0''), t)"
      "WalletRead 1 (W_balance 0) \<in> set (hist t)"
    by (simp add: balance_def try_shared_def runs run_events q)
  have "t = (init_rt\<lparr>m_wallet := 1\<rparr>)\<lparr>hist := hist t\<rparr>"
    using readers_write_nothing [of quiet_world "ApiBalance 0" "init_rt\<lparr>m_wallet := 1\<rparr>"] t(1) by blast
  with t show ?thesis by simp
qed

end
