(* ===== verification/Ticket_Api.thy ===== *)
theory Ticket_Api
  imports Ticket_Spec Module_Api
begin

text \<open>
  A ticket's life as the host sees it through the module's methods: filed, followed, cancelled or run, its
  result read and acknowledged.
\<close>

lemma fromJson_plain:
  assumes "map_of m ''ok'' = None" "map_of m ''result'' = None" "filter (\<lambda>(k, v). k \<noteq> ''ok'') m = m"
  shows "fromJson what (JObj ((''ok'', JBool True) # m)) = Inr \<lparr>sr_success = True, sr_value = JObj m, sr_error = []\<rparr>"
  using assms by (simp add: fromJson_def value_simps Let_def)

lemma remove_first_last: "(\<forall>x\<in>set xs. \<not> P x) \<Longrightarrow> P y \<Longrightarrow> remove_first P (xs @ [y]) = xs"
  by (induction xs) simp_all

definition result_of :: "string + json \<Rightarrow> std_result" where
  "result_of out = (case out of
     Inl e \<Rightarrow> \<lparr>sr_success = False, sr_value = JNull, sr_error = e\<rparr>
   | Inr r \<Rightarrow> \<lparr>sr_success = True, sr_value = r, sr_error = []\<rparr>)"

text \<open>C28. A ticket is good for its job: filing a known job in a module that is ready answers with a new name and a receipt that open it
  for the follow-up calls; it is queued; cancelling it leaves the table and the queue as before it; and where it is the next
  job, it runs with its own kind and parameters, whatever it ended with is what \<^verbatim>\<open>jobResult\<close> answers, as a success with
  the body's result or a failure with its error, and acknowledging it leaves the table as before it.\<close>

theorem ticket_round_trip:
  assumes "kind \<in> set kinds" "dir \<noteq> []" "is_object params" "tickets_inv (t, r)"
  shows "\<exists>i c t1. startJob_method wh dir kind params draws t =
      (Inr \<lparr>sr_success = True, sr_value = JObj [(''jobId'', JStr i), (''receipt'', JStr c)], sr_error = []\<rparr>, t1) \<and>
    m_jobs t i = None \<and>
    jobStatus_method i c t1 = JObj [(''ok'', JBool True), (''state'', JStr ''queued''), (''progress'', JNull), (''error'', JStr [])] \<and>
    (\<exists>t2. cancelJob_method i c t1 = (True, t2) \<and> m_jobs t2 = m_jobs t \<and> m_queue t2 = m_queue t) \<and>
    (m_queue t = [] \<and> \<not> m_stop t \<longrightarrow> (\<forall>out. \<exists>p t3 st t4 t5. next_turn t1 = (RunJob p, t3) \<and>
       j_kind (heap t3 p) = kind \<and> j_params (heap t3 p) = params \<and>
       settle wh p (answer_json out) t3 = (Inr st, t4) \<and> jobResult_method wh i c t4 = Inr (result_of out) \<and>
       ackJob_method i c t4 = (True, t5) \<and> m_jobs t5 = m_jobs t))"
proof -
  let ?i = "tn.name t" and ?p = "heap_top t" and ?c = "randomToken draws"
  let ?j = "new_job\<lparr>j_kind := kind, j_params := params, j_receipt := ?c, j_id := ?i\<rparr>"
  let ?t1 = "t\<lparr>heap := (heap t)(?p := ?j), heap_top := ?p + 1, m_nextId := m_nextId t + 1,
      m_jobs := (m_jobs t)(?i \<mapsto> ?p), m_queue := m_queue t @ [?p]\<rparr>"
  have fresh: "m_jobs t ?i = None" using tn.fresh [of t] assms(4) by (simp add: tickets_inv_iff)
  have start: "startJob_method wh dir kind params draws t =
      (Inr \<lparr>sr_success = True, sr_value = JObj [(''jobId'', JStr ?i), (''receipt'', JStr ?c)], sr_error = []\<rparr>, ?t1)"
    using assms(3) by (simp add: startJob_method_def startJob_accepted [OF assms(1,2)] Let_def fromJson_plain)
  have status: "jobStatus_method ?i ?c ?t1 =
      JObj [(''ok'', JBool True), (''state'', JStr ''queued''), (''progress'', JNull), (''error'', JStr [])]"
    by (simp add: jobStatus_method_def jobStatus_def find_job_def Let_def new_job_def)
  have other: "j_id (heap t q) \<noteq> ?i \<and> q \<noteq> ?p" if "q \<in> set (m_queue t)" for q
    using inv_queue [OF assms(4), of q] that fresh inv_job(1) [OF assms(4)] by (fastforce simp: in_table_def)
  then have "remove_first (\<lambda>q. j_id (heap ?t1 q) = ?i) (m_queue t @ [?p]) = m_queue t"
    by (intro remove_first_last) auto
  then have cancel: "\<exists>t2. cancelJob_method ?i ?c ?t1 = (True, t2) \<and> m_jobs t2 = m_jobs t \<and> m_queue t2 = m_queue t"
    using fresh by (simp add: cancelJob_method_def cancelJob_def find_job_def erase_job_def new_job_def fun_upd_idem)
  have run: "\<exists>p t3 st t4 t5. next_turn ?t1 = (RunJob p, t3) \<and> j_kind (heap t3 p) = kind \<and> j_params (heap t3 p) = params \<and>
       settle wh p (answer_json out) t3 = (Inr st, t4) \<and> jobResult_method wh ?i ?c t4 = Inr (result_of out) \<and>
       ackJob_method ?i ?c t4 = (True, t5) \<and> m_jobs t5 = m_jobs t" if "m_queue t = []" "\<not> m_stop t" for out
  proof -
    let ?t3 = "update_job ?p (\<lambda>j. j\<lparr>j_state := ''running''\<rparr>) (?t1\<lparr>m_queue := []\<rparr>)"
    let ?t4 = "update_job ?p (settled_job out) ?t3"
    have turn: "next_turn ?t1 = (RunJob ?p, ?t3)" using that by (simp add: next_turn_def)
    have res: "jobResult_method wh ?i ?c ?t4 = Inr (result_of out)"
      by (cases out) (simp_all add: jobResult_method_def jobResult_def find_job_def settled_job_def new_job_def Let_def
          fromJson_err fromJson_ok result_of_def)
    have ack: "\<exists>t5. ackJob_method ?i ?c ?t4 = (True, t5) \<and> m_jobs t5 = m_jobs t"
      using fresh by (cases out) (simp_all add: ackJob_method_def ackJob_def find_job_def settled_job_def erase_job_def fun_upd_idem)
    from ack obtain t5 where "ackJob_method ?i ?c ?t4 = (True, t5)" "m_jobs t5 = m_jobs t" by blast
    with turn res show ?thesis
      by (intro exI [of _ ?p] exI [of _ ?t3] exI [of _ "j_state (settled_job out (heap ?t3 ?p))"] exI [of _ ?t4] exI [of _ t5])
        (simp add: settle_answer new_job_def)
  qed
  show ?thesis
    by (rule exI [of _ ?i], rule exI [of _ ?c], rule exI [of _ ?t1]) (intro conjI start fresh status cancel impI, use run in blast)
qed

lemma ticket_round_trip_witness:
  "\<exists>i c t1. startJob_method (\<lambda>_ _. []) ''d'' ''rescan'' (JObj []) [] init_tickets =
      (Inr \<lparr>sr_success = True, sr_value = JObj [(''jobId'', JStr i), (''receipt'', JStr c)], sr_error = []\<rparr>, t1) \<and>
    (\<exists>t2. cancelJob_method i c t1 = (True, t2) \<and> m_queue t2 = [])"
proof -
  have "''rescan'' \<in> set kinds" "''d'' \<noteq> []" "is_object (JObj [])" by (simp_all add: kinds_def)
  from ticket_round_trip [OF this init_inv, of "\<lambda>_ _. []" "[]"]
  obtain i c t1 t2 where "startJob_method (\<lambda>_ _. []) ''d'' ''rescan'' (JObj []) [] init_tickets =
      (Inr \<lparr>sr_success = True, sr_value = JObj [(''jobId'', JStr i), (''receipt'', JStr c)], sr_error = []\<rparr>, t1)"
    "cancelJob_method i c t1 = (True, t2)" "m_queue t2 = m_queue init_tickets"
    by blast
  then show ?thesis by (auto simp: init_tickets_def)
qed

end
