(* ===== verification/Probes.thy ===== *)
theory Probes
  imports Engine Text
begin

text \<open>
  The two diagnostic programs of \<^verbatim>\<open>tools/\<close> that find out which strings of the engine the caller owns: each
  getter is called in a forked child that copies the string and frees it, and an engine that owns the string aborts
  only that child. The results are the exit code and the verdicts printed; a process that aborts is an exception
  that ends a program, as everywhere.
\<close>

section \<open>One getter\<close>

text \<open>The child: it ends with exit code 0 unless the getter or the release ended it.\<close>

definition child_survives :: "world \<Rightarrow> event \<Rightarrow> rt \<Rightarrow> bool" where
  "child_survives W ev s = (case fst (take_call W ev s) of Inr _ \<Rightarrow> True | Inl _ \<Rightarrow> False)"

text \<open>\<^verbatim>\<open>probe\<close> of each program: what the child did is not seen by the parent but for its exit.\<close>

definition ownership_probe :: "world \<Rightarrow> event \<Rightarrow> (event \<times> bool) run" where
  "ownership_probe W ev = getM (\<lambda>s. (ev, child_survives W ev s))"

definition transaction_probe :: "world \<Rightarrow> event \<Rightarrow> (event \<times> bool) run" where
  "transaction_probe W ev = getM (\<lambda>s. (ev, child_survives W ev s))"

primrec probe_each :: "(event \<Rightarrow> (event \<times> bool) run) \<Rightarrow> event list \<Rightarrow> (event \<times> bool) list run" where
  "probe_each p [] = retM []"
| "probe_each p (ev # evs) = bindM (p ev) (\<lambda>v. bindM (probe_each p evs) (\<lambda>vs. retM (v # vs)))"

section \<open>The programs\<close>

text \<open>
  \<^verbatim>\<open>probe_ownership\<close>: a wallet opened on stagenet, two getters as control, and the two of a transaction that cannot be
  built. A null address handed to the engine has no defined behaviour: \<open>None\<close>.
\<close>

definition probe_ownership :: "world \<Rightarrow> string \<Rightarrow> string \<Rightarrow> string \<Rightarrow> string \<Rightarrow> (int \<times> (event \<times> bool) list) option run" where
  "probe_ownership W dir name pw node =
     bindM (call W (w_handle W) (WM (WM_openWallet (dir @ ''/'' @ name) pw 2))) (\<lambda>w.
       if w = 0 then retM (Some (1, []))
       else thenM (callU W (Wallet w (W_init node 0 [] [] False False [])))
       (thenM (callU W (WalletRead w W_status))
       (bindM (probe_each (ownership_probe W) [WalletRead w (W_address 0 0), WalletRead w (W_getSubaddressLabel 0 0)]) (\<lambda>control.
        bindM (call W (w_str W) (WalletRead w (W_address 0 0))) (\<lambda>addr. case addr of
          None \<Rightarrow> retM None
        | Some a \<Rightarrow>
            bindM (call W (w_handle W) (Wallet w (W_createTransaction (c_str a) [] 1000000000000000 0 0 0 [] '',''))) (\<lambda>pt.
              if pt = 0 then retM (Some (0, control))
              else thenM (callU W (PendingTx pt PT_status))
                (bindM (probe_each (ownership_probe W) [PendingTx pt PT_errorString, PendingTx pt (PT_txid '','')]) (\<lambda>vs.
                  retM (Some (0, control @ vs))))))))))"

text \<open>
  \<^verbatim>\<open>probe_transaction_info\<close>: at most \<open>n\<close> readings of the heights, 64-bit numbers that wrap, until the wallet has caught up.
\<close>

primrec probe_sync :: "world \<Rightarrow> handle \<Rightarrow> nat \<Rightarrow> unit run" where
  "probe_sync W w 0 = retM ()"
| "probe_sync W w (Suc n) =
     bindM (call W (w_u64 W) (WalletRead w W_blockChainHeight)) (\<lambda>h.
     bindM (call W (w_u64 W) (WalletRead w W_daemonBlockChainHeight)) (\<lambda>d.
     thenM (callU W (WalletRead w W_synchronized))
     (bindM (call W (w_bool W) (WalletRead w W_synchronized)) (\<lambda>synced.
       if synced \<and> d > 0 \<and> h + 1 \<ge> d then retM ()
       else thenM (logM (SleepMs 3000)) (probe_sync W w n)))))"

text \<open>The first transaction of the history: read as it is, then each getter probed.\<close>

definition probe_row :: "world \<Rightarrow> handle \<Rightarrow> (int \<times> (event \<times> bool) list) run" where
  "probe_row W t =
     thenM (callU W (TxInfo t TI_hash))
     (thenM (callU W (TxInfo t (TI_subaddrIndex '','')))
     (thenM (callU W (TxInfo t TI_direction))
     (thenM (callU W (TxInfo t TI_amount))
     (bindM (probe_each (transaction_probe W) [TxInfo t TI_hash, TxInfo t TI_paymentId, TxInfo t TI_description,
         TxInfo t (TI_subaddrIndex '','')]) (\<lambda>vs.
      bindM (call W (w_int W) (TxInfo t TI_transfers_count)) (\<lambda>n.
        if n > 0 then bindM (transaction_probe W (TxInfo t (TI_transfers_address 0))) (\<lambda>v. retM (0, vs @ [v]))
        else retM (0, vs)))))))"

definition probe_transaction_info :: "world \<Rightarrow> string \<Rightarrow> string \<Rightarrow> string \<Rightarrow> (int \<times> (event \<times> bool) list) run" where
  "probe_transaction_info W dir pw node =
     bindM (call W (w_handle W) (WM (WM_openWallet (dir @ ''/basecamp'') pw 2))) (\<lambda>w.
       if w = 0 then retM (1, [])
       else thenM (callU W (Wallet w (W_init node 0 [] [] False False [])))
       (thenM (callU W (WalletRead w W_connected))
       (thenM (callU W (Wallet w (W_setAutoRefreshInterval 2000)))
       (thenM (callU W (Wallet w W_startRefresh))
       (thenM (callU W (Wallet w W_refreshAsync))
       (thenM (probe_sync W w 60)
       (thenM (callU W (Wallet w W_pauseRefresh))
       (thenM (callU W (WalletRead w W_blockChainHeight))
       (thenM (callU W (WalletRead w W_synchronized))
       (thenM (callU W (WalletRead w (W_balance 0)))
       (bindM (call W (w_handle W) (WalletRead w W_history)) (\<lambda>h.
         if h = 0 then retM (1, [])
         else thenM (callU W (TxHistory h TH_refresh))
           (bindM (call W (w_int W) (TxHistory h TH_count)) (\<lambda>n.
             if n = 0 then retM (2, [])
             else bindM (call W (w_handle W) (TxHistory h (TH_transaction 0))) (probe_row W)))))))))))))))"

section \<open>What the verdicts mean\<close>

text \<open>
  An engine that owns some of its strings: freeing one of those aborts the process, freeing another does not, and its
  getters answer.
\<close>

definition owns_some :: "world \<Rightarrow> (event \<Rightarrow> bool) \<Rightarrow> bool" where
  "owns_some W owned \<longleftrightarrow> (\<forall>tr ev x. w_throw W (ev # tr) (MONERO_free x) = (if owned ev then Some Terminated else None)) \<and>
     (\<forall>tr ev. (\<forall>x. ev \<noteq> MONERO_free x) \<longrightarrow> w_throw W tr ev = None \<and> w_str W tr ev \<noteq> None)"

lemma child_verdict:
  assumes "owns_some W owned" "\<forall>x. ev \<noteq> MONERO_free x"
  shows "child_survives W ev s \<longleftrightarrow> \<not> owned ev"
proof -
  have "w_throw W (hist s) ev = None" "w_str W (hist s) ev \<noteq> None"
    "w_throw W (ev # hist s) (MONERO_free x) = (if owned ev then Some Terminated else None)" for x
    using assms by (auto simp: owns_some_def)
  then show ?thesis by (auto simp: child_survives_def runs split: option.split)
qed

definition right :: "(event \<Rightarrow> bool) \<Rightarrow> (event \<times> bool) list \<Rightarrow> bool" where
  "right owned vs \<longleftrightarrow> (\<forall>(ev, ok)\<in>set vs. ok \<longleftrightarrow> \<not> owned ev)"

lemma right_simps [simp]: "right owned []" "right owned (v # vs) \<longleftrightarrow> (snd v \<longleftrightarrow> \<not> owned (fst v)) \<and> right owned vs"
  "right owned (us @ vs) \<longleftrightarrow> right owned us \<and> right owned vs"
  by (auto simp: right_def)

lemma each_right:
  assumes "owns_some W owned" "\<forall>ev\<in>set evs. \<forall>x. ev \<noteq> MONERO_free x"
  shows "yields (\<lambda>vs. right owned vs \<and> map fst vs = evs) (probe_each (ownership_probe W) evs)"
    "yields (\<lambda>vs. right owned vs \<and> map fst vs = evs) (probe_each (transaction_probe W) evs)"
proof -
  have one: "yields (\<lambda>v. (snd v \<longleftrightarrow> \<not> owned (fst v)) \<and> fst v = ev) (ownership_probe W ev)"
    "yields (\<lambda>v. (snd v \<longleftrightarrow> \<not> owned (fst v)) \<and> fst v = ev) (transaction_probe W ev)" if "\<forall>x. ev \<noteq> MONERO_free x" for ev
    unfolding ownership_probe_def transaction_probe_def using child_verdict [OF assms(1) that] by (intro yields_get; simp)+
  show "yields (\<lambda>vs. right owned vs \<and> map fst vs = evs) (probe_each (ownership_probe W) evs)"
    "yields (\<lambda>vs. right owned vs \<and> map fst vs = evs) (probe_each (transaction_probe W) evs)"
    using assms(2)
    by (induction evs) (auto intro!: yields_ret yields_bind_strong [OF one(1)] yields_bind_strong [OF one(2)]
      elim!: yields_bind_strong)
qed

text \<open>In such an engine nothing throws in the parent, which frees nothing.\<close>

fun frees :: "event \<Rightarrow> bool" where
  "frees (MONERO_free x) = True"
| "frees _ = False"

definition freed :: "event list \<Rightarrow> rt \<Rightarrow> bool" where
  "freed fs s \<longleftrightarrow> filter frees (hist s) = fs"

lemma owns_calm:
  assumes "owns_some W owned" "\<not> frees ev"
  shows "throws (\<lambda>_. False) (call W ans ev)" "throws (\<lambda>_. False) (callU W ev)"
proof -
  have "w_throw W tr ev = None" for tr using assms by (cases ev) (auto simp: owns_some_def)
  then show "throws (\<lambda>_. False) (call W ans ev)" "throws (\<lambda>_. False) (callU W ev)" by (intro throwsI; simp add: wp)+
qed

lemma log_calm: "throws E (logM ev)"
  by (rule throwsI) (simp add: wp)

lemma keeps_freed: "\<not> frees ev \<Longrightarrow> keeps (freed fs) (call W ans ev)" "\<not> frees ev \<Longrightarrow> keeps (freed fs) (callU W ev)"
  by (intro keeps_call keeps_callU; simp add: freed_def)+

lemma each_calm:
  "throws (\<lambda>_. False) (probe_each (ownership_probe W) evs)" "throws (\<lambda>_. False) (probe_each (transaction_probe W) evs)"
  "keeps (freed fs) (probe_each (ownership_probe W) evs)" "keeps (freed fs) (probe_each (transaction_probe W) evs)"
  by (induction evs) (simp_all add: ownership_probe_def transaction_probe_def throws keeps)

lemma sync_calm:
  assumes "owns_some W owned"
  shows "throws (\<lambda>_. False) (probe_sync W w n)" "keeps (freed fs) (probe_sync W w n)"
proof -
  show "throws (\<lambda>_. False) (probe_sync W w n)"
    by (induction n) (simp_all add: throws, (intro throws owns_calm [OF assms] log_calm | assumption | simp)+)
  show "keeps (freed fs) (probe_sync W w n)"
    by (induction n) (simp_all add: keeps, (intro keeps keeps_freed keeps_log | assumption | simp add: freed_def)+)
qed

lemma ownership_calm:
  assumes "owns_some W owned"
  shows "throws (\<lambda>_. False) (probe_ownership W dir name pw node)" "keeps (freed fs) (probe_ownership W dir name pw node)"
    "yields (\<lambda>r. \<forall>code vs. r = Some (code, vs) \<longrightarrow> right owned vs) (probe_ownership W dir name pw node)"
proof -
  show "throws (\<lambda>_. False) (probe_ownership W dir name pw node)"
    unfolding probe_ownership_def
    by (intro throws owns_calm [OF assms] each_calm) simp_all
  show "keeps (freed fs) (probe_ownership W dir name pw node)"
    unfolding probe_ownership_def by (intro keeps keeps_freed each_calm) simp_all
  show "yields (\<lambda>r. \<forall>code vs. r = Some (code, vs) \<longrightarrow> right owned vs) (probe_ownership W dir name pw node)"
    unfolding probe_ownership_def
    by (rule yields_bind, rule yields_if, rule yields_ret, simp, rule yields_then, rule yields_then,
        rule yields_bind_strong [OF each_right(1) [OF assms]], simp, rule yields_bind, rule yields_case_option, rule yields_ret, simp,
        rule yields_bind, rule yields_if, rule yields_ret, simp, rule yields_then,
        rule yields_bind_strong [OF each_right(1) [OF assms]], simp, rule yields_ret, simp)
qed

definition row_getters :: "handle \<Rightarrow> event list" where
  "row_getters t = [TxInfo t TI_hash, TxInfo t TI_paymentId, TxInfo t TI_description, TxInfo t (TI_subaddrIndex '','')]"

definition told :: "(event \<Rightarrow> bool) \<Rightarrow> int \<times> (event \<times> bool) list \<Rightarrow> bool" where
  "told owned r \<longleftrightarrow> right owned (snd r) \<and> (fst r = 0 \<longrightarrow> (\<exists>t. map fst (take 4 (snd r)) = row_getters t))"

lemma row_told:
  assumes "owns_some W owned"
  shows "yields (told owned) (probe_row W t)"
proof -
  have four: "right owned vs \<and> map fst vs = row_getters t \<Longrightarrow> length vs = 4" for vs
    by (drule conjunct2, drule arg_cong [where f = length]) (simp add: row_getters_def)
  have last: "yields (told owned) (bindM (transaction_probe W (TxInfo t (TI_transfers_address 0))) (\<lambda>v. retM (0, vs @ [v])))"
    if "right owned vs \<and> map fst vs = row_getters t" for vs
    unfolding transaction_probe_def
    by (rule yields_bind_strong [OF yields_get, where Q = "\<lambda>v. snd v \<longleftrightarrow> \<not> owned (fst v)"])
      (use that four [OF that] in \<open>auto simp: child_verdict [OF assms] told_def yields_iff retM_def\<close>)
  have plain_end: "told owned (0, vs)" if "right owned vs \<and> map fst vs = row_getters t" for vs
    using that four [OF that] by (auto simp: told_def)
  show ?thesis
    unfolding probe_row_def row_getters_def [symmetric]
    by (intro yields_then yields_bind_strong [OF each_right(2) [OF assms]] yields_bind yields_if yields_ret last plain_end)
      (simp_all add: row_getters_def)
qed

lemma info_calm:
  assumes "owns_some W owned"
  shows "throws (\<lambda>_. False) (probe_transaction_info W dir pw node)" "keeps (freed fs) (probe_transaction_info W dir pw node)"
    "yields (told owned) (probe_transaction_info W dir pw node)"
proof -
  have one: "throws (\<lambda>_. False) (transaction_probe W ev)" "keeps (freed fs) (transaction_probe W ev)" for ev
    by (simp_all add: transaction_probe_def throws keeps)
  show "throws (\<lambda>_. False) (probe_transaction_info W dir pw node)"
    unfolding probe_transaction_info_def probe_row_def
    by (intro throws owns_calm [OF assms] each_calm sync_calm [OF assms] one) simp_all
  show "keeps (freed fs) (probe_transaction_info W dir pw node)"
    unfolding probe_transaction_info_def probe_row_def by (intro keeps keeps_freed each_calm sync_calm [OF assms] one) simp_all
  show "yields (told owned) (probe_transaction_info W dir pw node)"
    unfolding probe_transaction_info_def by (intro yields row_told [OF assms]) (simp_all add: told_def)
qed


text \<open>An engine that owns the descriptions of its transactions.\<close>

definition owning_world :: world where
  "owning_world = quiet_world\<lparr>w_throw := (\<lambda>tr ev. case (ev, tr) of
      (MONERO_free x, TxInfo t TI_description # tr') \<Rightarrow> Some Terminated | _ \<Rightarrow> None),
    w_int := (\<lambda>_ _. 1), w_u64 := (\<lambda>_ _. 1)\<rparr>"

definition engine_owns :: "event \<Rightarrow> bool" where
  "engine_owns ev \<longleftrightarrow> (\<exists>t. ev = TxInfo t TI_description)"

lemma owning_world_owns: "owns_some owning_world engine_owns"
  by (auto simp: owns_some_def owning_world_def quiet_world_def engine_owns_def split: event.split ti_read.split)

lemma owning_world_simps:
  "\<not> frees ev \<Longrightarrow> w_throw owning_world tr ev = None" "w_handle owning_world tr ev = 1" "w_u64 owning_world tr ev = 1"
  "w_bool owning_world tr ev" "w_int owning_world tr ev = 1"
  by (cases ev; simp add: owning_world_def quiet_world_def)+

lemma owning_run: "\<exists>vs. fst (probe_transaction_info owning_world ''d'' ''pw'' ''n'' s) = Inr (0, vs)"
proof -
  have loop: "probe_sync W w 60 = probe_sync W w (Suc 59)" for W w by simp
  show ?thesis
    unfolding probe_transaction_info_def loop probe_sync.simps probe_row_def transaction_probe_def
    by (simp add: runs owning_world_simps)
qed


end
