(* ===== verification/Spec2Isabelle.thy ===== *)
theory Spec2Isabelle
  imports Ticket_Spec Protocol Outcomes Privacy Sends_Spec Secrets Pending System Open_Spec Tor_Spec Null_Safety Api_Spec Divergences
    Open_Outcome Isolation Locks Discretion Survival Shutdown Histories Memory Events Footprint Ticket_Api Probes
begin

text \<open>
  The wallet engine module of \<^verbatim>\<open>logos-monero-wallet-core-module\<close>: a Logos module that drives wallet2, the
  Monero wallet engine, through the C interface of monero_c. The host calls the module's methods
  (\<^verbatim>\<open>src/monero_wallet_core_impl.cpp\<close>), which forward to one \<^verbatim>\<open>WalletRuntime\<close>
  (\<^verbatim>\<open>src/wallet_runtime.cpp\<close>). Whatever is slow or changes the wallet is a job: a method files it and
  answers with a ticket, and one worker thread runs the jobs in order. The direct methods read the wallet on the
  caller's thread. While nothing is queued the worker ticks: it moves an open wallet to Tor and flips its state. A
  second thread reads how the daemon does. Addresses are checked by the module itself (\<^verbatim>\<open>src/address_check.cpp\<close>).

  \<^bold>\<open>How the program is modelled.\<close> A C++ function is a program with state and exceptions (\<open>Prelude\<close>: return, sequence,
  try/catch, destructors that terminate the process if they throw), read off the source statement by statement. The
  state is the record \<open>rt\<close> of the fields of \<^verbatim>\<open>WalletRuntime\<close> (\<open>Engine\<close>), with one field more: the
  history of the calls made into the world, newest first. The world (wallet2, the node module, the host, the clock, the file system)
  is not the repository's code: it is the record \<open>world\<close> of functions that answer a call from the history and the
  call, differently each time if they like, and that may throw at any of them. Every theorem about the runtime holds for
  every such world, unless it names a hypothesis on it. Machine integers are words of their width. JSON values are a datatype
  (\<open>Json\<close>), with the exceptions of \<^verbatim>\<open>value()\<close> on the wrong type.

  \<^bold>\<open>The theories of the code.\<close>
  \<^item> \<open>Keccak\<close>, \<open>Base58\<close> (with \<open>Radix\<close>), \<open>Address\<close>: the hash, the decoder, the varint and
    \<^verbatim>\<open>monero_addr::valid\<close>.
  \<^item> \<open>Text\<close>, \<open>Sockets\<close>, \<open>Json\<close>, \<open>Names\<close>: the helpers at the top of
    \<^verbatim>\<open>wallet_runtime.cpp\<close>, \<^verbatim>\<open>socketsTo\<close>, the JSON accessors, the names a table issues.
  \<^item> \<open>Engine\<close>, \<open>Runtime\<close>: the state, the calls, locks, returned strings; \<^verbatim>\<open>setState\<close>,
    \<^verbatim>\<open>notifyOpen\<close>, \<^verbatim>\<open>verifyPassword\<close>, \<^verbatim>\<open>RefreshPause\<close> and the like.
  \<^item> \<open>Open\<close>, \<open>Sends\<close>, \<open>Tor\<close>, \<open>Reads\<close>: \<^verbatim>\<open>doOpenLike\<close>; the jobs on an open wallet;
    \<^verbatim>\<open>moveToTor\<close>, \<^verbatim>\<open>tick\<close> and the probe; the direct methods.
  \<^item> \<open>Worker\<close>, \<open>Tickets\<close>, \<open>Module_Api\<close>: \<^verbatim>\<open>run\<close> and \<^verbatim>\<open>shutdown\<close>; the job
    table and queue with its shared job objects; the module's methods, indices, results and the node module's reply.
  \<^item> \<open>System\<close>: the three together as a step relation, driven by host calls in any order, with the phases of the two
    threads, their joins and the end of the module, and its reachable states.
  \<^item> \<open>Probes\<close>: the diagnostic programs \<^verbatim>\<open>tools/probe_ownership.cpp\<close> and \<^verbatim>\<open>tools/probe_transaction_info.cpp\<close>.

  \<^bold>\<open>What is shown.\<close>
  \<^item> \<open>Keccak\<close>: the permutation with its tables is the specified Keccak-f, the hash the padded sponge.
    \<open>Base58\<close>, \<open>Address\<close>: decoding undoes encoding; exactly the addresses of the format are accepted, and each
    has a second spelling, since full blocks are not checked for overflow.
  \<^item> \<open>Ticket_Spec\<close>: the table, the queue and the job objects refine a board of tickets; jobs run once and in order.
  \<^item> \<open>Protocol\<close>: a checker of histories states the locking discipline, and every operation stays inside it.
  \<^item> \<open>Invariants\<close> is the interface of a condition few actions can break (its locale is interpreted on the conditions of
    \<open>Privacy\<close>, \<open>Pending\<close>, \<open>Open_Spec\<close> and \<open>Tor_Spec\<close>). \<open>Privacy\<close>: a wallet on Tor was dialled through
    it. \<open>Pending\<close>: no transaction outlives its wallet. \<open>Null_Safety\<close>: no null handle reaches the engine.
  \<^item> \<open>Sends_Spec\<close>, \<open>Secrets\<close>: what building and sending do to the engine and to the table, the gate of Tor routes, the
    password before every secret, the refresh resumed on every way out.
  \<^item> \<open>Open_Spec\<close>, \<open>Tor_Spec\<close>, \<open>Api_Spec\<close>: openings refused or dialled as the node module says; where a move
    and an idle turn end; the answers of the methods. \<open>Open_Outcome\<close>: an opening succeeds or leaves nothing open.
  \<^item> \<open>Histories\<close> is the interface of a condition on the history of calls, with the sweep over every operation proved once; its
    locale is interpreted on the strings owed to the engine (\<open>Memory\<close>: each is freed once and at once, and nothing else is)
    and on the module's events (\<open>Events\<close>: each reaches its emitter).
  \<^item> \<open>Footprint\<close>: what the readers' threads write of the state. \<open>Survival\<close>: where alone the process can end.
    \<open>Shutdown\<close>: both threads end in a bounded number of steps. \<open>Ticket_Api\<close>: a ticket's life through the methods.
    \<open>Probes\<close>: the verdicts of the diagnostic programs are right.
  \<^item> \<open>Twins\<close> is the interface of a relation between two runs which the engine's answers respect, with the sweep that every
    operation respects it too. Its locale is interpreted on states that differ in the probe's reading (\<open>Isolation\<close>: the worker
    never looks at it, so the probe's thread may write at any time) and instantiated on runs with renamed
    secrets (\<open>Secrecy\<close>, and \<open>Discretion\<close> for whole runs: no event or answer depends on a password, a seed or a key)
    and on runs after another history (\<open>Locks\<close>: what an operation does to the locks does not depend on where it starts).
  \<^item> \<open>Locks\<close>: any number of threads, each with the actions of its operations one after the other, interleaved in any order
    the two locks allow. No schedule deadlocks, and the calls that change the wallet run alone. The third lock, of the job queue
    (\<^verbatim>\<open>m_qmu\<close>), is held for a step of \<open>Tickets\<close> and never together with another.
  \<^item> \<open>Outcomes\<close>: every job ends with an error or a result. \<open>Divergences\<close>: inputs on which the code does what its
    comments do not say.

  \<^bold>\<open>Bounds.\<close> The job counter is a 64-bit word: what rests on fresh names is shown for runs with fewer than
  \<open>2 ^ 64 - 1\<close> jobs asked for. No definition needs fuel: every loop of the source is bounded by its input (the twenty
  polls for a node, the digits of a text, the rows of a history, the sixty readings of a probe). After the stop is asked for, seven
  steps of the threads are left at most. A terminated process (an exception in a destructor) is an
  outcome of its own, after which nothing is claimed. In \<open>System\<close> a call, a job and a turn is one step; how their
  actions overlap is the matter of \<open>Locks\<close>, where what a thread does is a run of its operations from any states, and of
  \<open>Isolation\<close>.

  \<^bold>\<open>Not modelled.\<close> How long a thread waits on its condition variable (it may wake at any time); the data races of fields
  read without their lock (they are listed with the findings); the registration of the module with its host and the
  inter-process transport, generated or external; monero_c itself and the unused rest of its header; what the diagnostic
  programs print besides their verdicts; build files and test scripts.
\<close>

end
